theory Spec2Isabelle
  imports Main "HOL-Library.Multiset"
begin

section \<open>Python values, errors and the random source\<close>

text \<open>
  The program is \<^verbatim>\<open>enigma.py\<close>. Python integers are \<^typ>\<open>int\<close>; a list and a
  \<^verbatim>\<open>deque\<close> of numbers are both \<^typ>\<open>int list\<close>. Every exception the code can
  raise is a value of \<open>error\<close>; a method that can raise returns \<open>error + 'a\<close>.
\<close>

datatype error = AssertionError | IndexError | KeyError | ValueError | ZeroDivisionError

text \<open>
  \<^verbatim>\<open>xs[i]\<close> on a list or a deque: a negative index counts from the end, an index
  outside \<open>[-len, len)\<close> raises \<^verbatim>\<open>IndexError\<close>.
\<close>

definition py_index :: "'a list \<Rightarrow> int \<Rightarrow> error + 'a" where
  "py_index xs i =
     (let n = int (length xs)
      in if 0 \<le> i \<and> i < n then Inr (xs ! nat i)
         else if - n \<le> i \<and> i < 0 then Inr (xs ! nat (n + i))
         else Inl IndexError)"

text \<open>
  Modelled from the spec: \<^verbatim>\<open>consts.py\<close> is not among the sources. The spec gives
  the alphabet index space as the integers \<open>0..A-1\<close>, so \<^verbatim>\<open>ALPHABET_UNIVERSE\<close> is
  that sequence; the alphabet size \<open>A\<close> (\<^verbatim>\<open>ALPHABET_SIZE\<close>) and the rotor count
  (\<^verbatim>\<open>NUM_ROTORS\<close>) are parameters of every definition that reads them.
\<close>

definition ALPHABET_UNIVERSE :: "int \<Rightarrow> int list" where
  "ALPHABET_UNIVERSE A = [0..A - 1]"

text \<open>
  The random module is a source of values the program does not choose. A constructor
  takes the values drawn for it as arguments; these predicates say which values the
  library can hand out: \<^verbatim>\<open>randint(lo, hi)\<close> returns any integer of the closed
  interval, \<^verbatim>\<open>shuffle(xs)\<close> leaves any rearrangement of \<open>xs\<close>.
\<close>

definition randint_ok :: "int \<Rightarrow> int \<Rightarrow> int \<Rightarrow> bool" where
  "randint_ok lo hi r = (lo \<le> r \<and> r \<le> hi)"

definition shuffle_ok :: "int list \<Rightarrow> int list \<Rightarrow> bool" where
  "shuffle_ok xs ys = (mset ys = mset xs)"

text \<open>\<^verbatim>\<open>randomNumber()\<close> is \<^verbatim>\<open>randint(0, ALPHABET_SIZE)\<close>: \<open>r\<close> is a value it can return.\<close>

definition randomNumber_ok :: "int \<Rightarrow> int \<Rightarrow> bool" where
  "randomNumber_ok A r = randint_ok 0 A r"

section \<open>Ring, disc, reflector\<close>

record AlphabetRing =
  notch :: int

text \<open>\<^verbatim>\<open>AlphabetRing.__init__\<close>: the notch is the value \<^verbatim>\<open>randomNumber()\<close> returned.\<close>

definition AlphabetRing_init :: "int \<Rightarrow> AlphabetRing" where
  "AlphabetRing_init r = \<lparr>notch = r\<rparr>"

text \<open>
  \<^verbatim>\<open>RotorDisc.__init__\<close>: the universe, shuffled; \<open>sh\<close> is what the shuffle left.
\<close>

definition RotorDisc_init :: "int list \<Rightarrow> int list" where
  "RotorDisc_init sh = sh"

definition RotorDisc_init_ok :: "int \<Rightarrow> int list \<Rightarrow> bool" where
  "RotorDisc_init_ok A sh = shuffle_ok (ALPHABET_UNIVERSE A) sh"

definition RotorDisc_get :: "int \<Rightarrow> int list \<Rightarrow> int \<Rightarrow> error + int" where
  "RotorDisc_get A mapping num =
     (if num \<in> set (ALPHABET_UNIVERSE A) then py_index mapping num else Inl AssertionError)"

text \<open>
  \<^verbatim>\<open>RotorDisc.rotate\<close> is \<^verbatim>\<open>deque.rotate(1)\<close>: one step to the right, the last
  element moves to the front; an empty deque stays empty.
\<close>

definition RotorDisc_rotate :: "int list \<Rightarrow> int list" where
  "RotorDisc_rotate mapping = (if mapping = [] then [] else last mapping # butlast mapping)"

definition Reflector_init :: "int list \<Rightarrow> int list" where
  "Reflector_init sh = sh"

definition Reflector_init_ok :: "int \<Rightarrow> int list \<Rightarrow> bool" where
  "Reflector_init_ok A sh = shuffle_ok (ALPHABET_UNIVERSE A) sh"

definition Reflector_get :: "int \<Rightarrow> int list \<Rightarrow> int \<Rightarrow> error + int" where
  "Reflector_get A mapping num =
     (if num \<in> set (ALPHABET_UNIVERSE A) then py_index mapping num else Inl AssertionError)"

section \<open>Rotor\<close>

record Rotor =
  rotor_disc :: "int list"
  alphabet_ring :: AlphabetRing
  ringstellung :: int

text \<open>
  \<^verbatim>\<open>def __init__(self, ringstellung = randomNumber())\<close>: Python evaluates the default
  expression once, when the \<^verbatim>\<open>def\<close> statement runs in the class body, and stores the
  value with the function. \<open>dflt\<close> is that stored value; a call that passes no
  \<open>ringstellung\<close> (\<open>None\<close> here) receives it. \<open>sh\<close> and \<open>r\<close> are what the disc's
  shuffle and the ring's \<^verbatim>\<open>randomNumber()\<close> produced during this call.
\<close>

definition Rotor_init :: "int \<Rightarrow> int option \<Rightarrow> int list \<Rightarrow> int \<Rightarrow> Rotor" where
  "Rotor_init dflt ringstellung_arg sh r =
     \<lparr>rotor_disc = RotorDisc_init sh,
      alphabet_ring = AlphabetRing_init r,
      ringstellung = (case ringstellung_arg of None \<Rightarrow> dflt | Some v \<Rightarrow> v)\<rparr>"

definition Rotor_rotate :: "Rotor \<Rightarrow> Rotor" where
  "Rotor_rotate rt = rt\<lparr>rotor_disc := RotorDisc_rotate (rotor_disc rt)\<rparr>"

text \<open>\<^verbatim>\<open>%\<close> with a zero divisor raises; with a positive one it is \<open>mod\<close> on \<^typ>\<open>int\<close>.\<close>

definition Rotor_get :: "int \<Rightarrow> Rotor \<Rightarrow> int \<Rightarrow> error + int" where
  "Rotor_get A rt num =
     (if A = 0 then Inl ZeroDivisionError
      else RotorDisc_get A (rotor_disc rt) ((num + ringstellung rt) mod A))"

section \<open>Rotor assembly and the pawl-and-ratchet mechanism\<close>

text \<open>
  The mechanism keeps a reference to the assembly's own list of rotors, so the rotors
  are stored once; \<open>_n\<close> is the length of that list, which is never resized.
  \<open>rotation_count\<close> is the mechanism's list of counters.
\<close>

record RotorAssembly =
  rotors :: "Rotor list"
  reflector :: "int list"
  rotation_count :: "int list"

text \<open>
  \<^verbatim>\<open>RotorAssembly.__init__\<close>: \<open>N\<close> rotors, each built by \<^verbatim>\<open>Rotor()\<close> with no argument,
  one reflector, and \<open>len(rotors) - 1\<close> counters at zero. \<open>draws\<close> holds, rotor by
  rotor, the disc shuffle and the notch drawn.
\<close>

definition RotorAssembly_init :: "int \<Rightarrow> nat \<Rightarrow> (int list \<times> int) list \<Rightarrow> int list \<Rightarrow> RotorAssembly" where
  "RotorAssembly_init dflt N draws refl_sh =
     (let rs = map (\<lambda>(sh, r). Rotor_init dflt None sh r) (take N draws)
      in \<lparr>rotors = rs, reflector = Reflector_init refl_sh,
          rotation_count = replicate (length rs - 1) 0\<rparr>)"

definition RotorAssembly_init_ok :: "int \<Rightarrow> nat \<Rightarrow> (int list \<times> int) list \<Rightarrow> int list \<Rightarrow> bool" where
  "RotorAssembly_init_ok A N draws refl_sh =
     (length draws = N
      \<and> list_all (\<lambda>(sh, r). RotorDisc_init_ok A sh \<and> randomNumber_ok A r) draws
      \<and> Reflector_init_ok A refl_sh)"

text \<open>
  \<^verbatim>\<open>__rotate_rotor\<close>: the counter is read and written first, the rotor turns after.
  An exception leaves what was already written.
\<close>

definition rotate_rotor :: "int \<Rightarrow> nat \<Rightarrow> RotorAssembly \<Rightarrow> (error + unit) \<times> RotorAssembly" where
  "rotate_rotor A index s =
     (case py_index (rotation_count s) (int index) of
        Inl e \<Rightarrow> (Inl e, s)
      | Inr c \<Rightarrow>
          if A = 0 then (Inl ZeroDivisionError, s)
          else
            (let s1 = s\<lparr>rotation_count := (rotation_count s)[index := (c + 1) mod A]\<rparr>
             in case py_index (rotors s1) (int index) of
                  Inl e \<Rightarrow> (Inl e, s1)
                | Inr rt \<Rightarrow> (Inr (), s1\<lparr>rotors := (rotors s1)[index := Rotor_rotate rt]\<rparr>)))"

text \<open>The first loop of \<^verbatim>\<open>rotate\<close>, over \<open>idx\<close> in \<open>range(1, n)\<close>.\<close>

fun pending_loop :: "RotorAssembly \<Rightarrow> nat list \<Rightarrow> bool list \<Rightarrow> error + bool list" where
  "pending_loop s [] pending = Inr pending"
| "pending_loop s (idx # idxs) pending =
     (case py_index (rotation_count s) (int idx - 1) of
        Inl e \<Rightarrow> Inl e
      | Inr c \<Rightarrow>
          (case py_index (rotors s) (int idx - 1) of
             Inl e \<Rightarrow> Inl e
           | Inr rt \<Rightarrow>
               pending_loop s idxs
                 (if c = notch (alphabet_ring rt) then pending[idx := True] else pending)))"

text \<open>The second loop, over \<^verbatim>\<open>enumerate(pending_rotations)\<close>.\<close>

fun perform_loop :: "int \<Rightarrow> (nat \<times> bool) list \<Rightarrow> RotorAssembly \<Rightarrow> (error + unit) \<times> RotorAssembly" where
  "perform_loop A [] s = (Inr (), s)"
| "perform_loop A ((idx, pending) # rest) s =
     (if pending
      then (case rotate_rotor A idx s of
              (Inl e, s') \<Rightarrow> (Inl e, s')
            | (Inr u, s') \<Rightarrow> perform_loop A rest s')
      else perform_loop A rest s)"

definition PawlAndRatchetMechanism_rotate :: "int \<Rightarrow> RotorAssembly \<Rightarrow> (error + unit) \<times> RotorAssembly" where
  "PawlAndRatchetMechanism_rotate A s =
     (let n = length (rotors s); pending_rotations = replicate n False
      in if n = 0 then (Inl IndexError, s)
         else (case pending_loop s [1..<n] (pending_rotations[0 := True]) of
                 Inl e \<Rightarrow> (Inl e, s)
               | Inr pending \<Rightarrow> perform_loop A (enumerate 0 pending) s))"

text \<open>
  The objects of \<^verbatim>\<open>obj_list\<close> are rotors and one reflector; \<^verbatim>\<open>obj.get\<close> dispatches on
  the class.
\<close>

datatype stage = RotorStage Rotor | ReflectorStage "int list"

definition stage_get :: "int \<Rightarrow> stage \<Rightarrow> int \<Rightarrow> error + int" where
  "stage_get A obj v =
     (case obj of RotorStage rt \<Rightarrow> Rotor_get A rt v | ReflectorStage m \<Rightarrow> Reflector_get A m v)"

text \<open>The inner function \<^verbatim>\<open>apply(value, idx)\<close> of \<^verbatim>\<open>RotorAssembly.get\<close>.\<close>

function apply_stages :: "int \<Rightarrow> stage list \<Rightarrow> int \<Rightarrow> nat \<Rightarrow> error + int" where
  "apply_stages A obj_list v idx =
     (if idx = length obj_list then Inr v
      else if length obj_list < idx then Inl IndexError
      else (case stage_get A (obj_list ! idx) v of
              Inl e \<Rightarrow> Inl e
            | Inr v' \<Rightarrow> apply_stages A obj_list v' (idx + 1)))"
  by pat_completeness auto
termination
  by (relation "measure (\<lambda>(A, obj_list, v, idx). length obj_list - idx)") auto

declare apply_stages.simps [simp del]

definition RotorAssembly_get :: "int \<Rightarrow> int \<Rightarrow> RotorAssembly \<Rightarrow> (error + int) \<times> RotorAssembly" where
  "RotorAssembly_get A num s =
     (let obj_list = map RotorStage (rotors s) @ [ReflectorStage (reflector s)]
                     @ map RotorStage (rev (rotors s))
      in case apply_stages A obj_list num 0 of
           Inl e \<Rightarrow> (Inl e, s)
         | Inr v \<Rightarrow>
             (case PawlAndRatchetMechanism_rotate A s of
                (Inl e, s') \<Rightarrow> (Inl e, s')
              | (Inr u, s') \<Rightarrow> (Inr v, s')))"

section \<open>Plugboard and engine\<close>

record Plugboard =
  plug_mapping :: "int list"
  plug_str :: string

text \<open>\<^verbatim>\<open>Plugboard.get\<close> indexes the list with no check of its own.\<close>

definition Plugboard_get :: "Plugboard \<Rightarrow> int \<Rightarrow> error + int" where
  "Plugboard_get pb num = py_index (plug_mapping pb) num"

text \<open>
  A \<^verbatim>\<open>ConfigParser\<close>: sections by name, each a table from option name to text.
\<close>

type_synonym cfg = "string \<Rightarrow> (string \<Rightarrow> string option) option"

record Enigma =
  rotor_asm :: RotorAssembly
  plugboard :: Plugboard
  config :: cfg

definition Enigma_get :: "int \<Rightarrow> int \<Rightarrow> Enigma \<Rightarrow> (error + int) \<times> Enigma" where
  "Enigma_get A num e =
     (case Plugboard_get (plugboard e) num of
        Inl err \<Rightarrow> (Inl err, e)
      | Inr n1 \<Rightarrow>
          (case RotorAssembly_get A n1 (rotor_asm e) of
             (Inl err, asm') \<Rightarrow> (Inl err, e\<lparr>rotor_asm := asm'\<rparr>)
           | (Inr n2, asm') \<Rightarrow>
               (case Plugboard_get (plugboard e) n2 of
                  Inl err \<Rightarrow> (Inl err, e\<lparr>rotor_asm := asm'\<rparr>)
                | Inr n3 \<Rightarrow> (Inr n3, e\<lparr>rotor_asm := asm'\<rparr>))))"

section \<open>Plugboard construction\<close>

text \<open>
  Characters are \<^typ>\<open>char\<close>, the code points below 256, and a Python string is a
  \<^typ>\<open>string\<close>. \<^verbatim>\<open>chr\<close> raises \<^verbatim>\<open>ValueError\<close> on a negative number; a code point from
  256 on has no \<^typ>\<open>char\<close> and is rejected here too, which the program would not do,
  so the theorems about the plugboard string assume an alphabet of at most 26 letters,
  where every character is one of \<open>a..z\<close>.
\<close>

definition charToNumber :: "char \<Rightarrow> int" where
  "charToNumber c = of_char c - of_char CHR ''a''"

definition numberToChar :: "int \<Rightarrow> error + char" where
  "numberToChar number =
     (let cp = of_char CHR ''a'' + number
      in if 0 \<le> cp \<and> cp < 256 then Inr (char_of cp) else Inl ValueError)"

text \<open>\<^verbatim>\<open>str.lower()\<close>, on the ASCII letters.\<close>

definition py_lower :: "string \<Rightarrow> string" where
  "py_lower s =
     map (\<lambda>c. let n = of_char c :: nat in if 65 \<le> n \<and> n \<le> 90 then char_of (n + 32) else c) s"

text \<open>\<^verbatim>\<open>" ".join(keys)\<close> and \<^verbatim>\<open>s.split(" ")\<close>: the latter cuts at every single space.\<close>

fun join_space :: "string list \<Rightarrow> string" where
  "join_space [] = []"
| "join_space [k] = k"
| "join_space (k # ks) = k @ CHR '' '' # join_space ks"

fun split_space :: "string \<Rightarrow> string list" where
  "split_space [] = [[]]"
| "split_space (c # cs) =
     (if c = CHR '' '' then [] # split_space cs
      else (case split_space cs of t # ts \<Rightarrow> (c # t) # ts | [] \<Rightarrow> [[c]]))"

text \<open>
  The loop of \<^verbatim>\<open>getRandomPlugboardString\<close>. Each round shuffles the deque and pops two
  numbers from its left end; the list holds, round by round, the deque as the shuffle
  left it, so the deque before the shuffle need not be carried. A pop from an empty
  deque raises \<^verbatim>\<open>IndexError\<close>.
\<close>

fun pair_loop :: "int list list \<Rightarrow> string list \<Rightarrow> error + string list" where
  "pair_loop [] keys = Inr keys"
| "pair_loop (sh # shs) keys =
     (case sh of
        numA # numB # rest \<Rightarrow>
          (case numberToChar numA of
             Inl e \<Rightarrow> Inl e
           | Inr ca \<Rightarrow>
               (case numberToChar numB of
                  Inl e \<Rightarrow> Inl e
                | Inr cb \<Rightarrow> pair_loop shs (keys @ [[ca, cb]])))
      | _ \<Rightarrow> Inl IndexError)"

definition getRandomPlugboardString :: "int \<Rightarrow> int list list \<Rightarrow> error + string" where
  "getRandomPlugboardString numPairs shs =
     (case pair_loop (take (nat numPairs) shs) [] of
        Inl e \<Rightarrow> Inl e
      | Inr keys \<Rightarrow> Inr (join_space keys))"

text \<open>
  The draws the library can produce: \<open>numPairs\<close> from \<^verbatim>\<open>randint(1, 10)\<close>, and each
  shuffle a rearrangement of what the round before left in the deque.
\<close>

fun shuffles_ok :: "int list \<Rightarrow> int list list \<Rightarrow> bool" where
  "shuffles_ok mapping [] = True"
| "shuffles_ok mapping (sh # shs) = (shuffle_ok mapping sh \<and> shuffles_ok (drop 2 sh) shs)"

definition getRandomPlugboardString_ok :: "int \<Rightarrow> int \<Rightarrow> int list list \<Rightarrow> bool" where
  "getRandomPlugboardString_ok A numPairs shs =
     (randint_ok 1 10 numPairs \<and> length shs = nat numPairs
      \<and> shuffles_ok (ALPHABET_UNIVERSE A) shs)"

text \<open>\<^verbatim>\<open>xs[i] = v\<close> on a list.\<close>

definition py_setitem :: "'a list \<Rightarrow> int \<Rightarrow> 'a \<Rightarrow> error + 'a list" where
  "py_setitem xs i v =
     (let n = int (length xs)
      in if 0 \<le> i \<and> i < n then Inr (xs[nat i := v])
         else if - n \<le> i \<and> i < 0 then Inr (xs[nat (n + i) := v])
         else Inl IndexError)"

definition Plugboard_connect :: "int \<Rightarrow> char \<Rightarrow> char \<Rightarrow> int list \<Rightarrow> error + int list" where
  "Plugboard_connect A keyA keyB mapping =
     (if keyA = keyB then Inl AssertionError
      else
        (let numA = charToNumber keyA; numB = charToNumber keyB
         in if numA \<notin> set (ALPHABET_UNIVERSE A) then Inl AssertionError
            else if numB \<notin> set (ALPHABET_UNIVERSE A) then Inl AssertionError
            else (case py_setitem mapping numA numB of
                    Inl e \<Rightarrow> Inl e
                  | Inr m1 \<Rightarrow> py_setitem m1 numB numA)))"

text \<open>The loop of \<^verbatim>\<open>__setup\<close> over the tokens of the string.\<close>

fun setup_loop :: "int \<Rightarrow> string list \<Rightarrow> int list \<Rightarrow> error + int list" where
  "setup_loop A [] mapping = Inr mapping"
| "setup_loop A (keys # rest) mapping =
     (let keys' = py_lower keys
      in case py_index keys' 0 of
           Inl e \<Rightarrow> Inl e
         | Inr k0 \<Rightarrow>
             (case py_index keys' 1 of
                Inl e \<Rightarrow> Inl e
              | Inr k1 \<Rightarrow>
                  (case Plugboard_connect A k0 k1 mapping of
                     Inl e \<Rightarrow> Inl e
                   | Inr mapping' \<Rightarrow> setup_loop A rest mapping')))"

definition Plugboard_setup :: "int \<Rightarrow> Plugboard \<Rightarrow> error + Plugboard" where
  "Plugboard_setup A pb =
     (case setup_loop A (split_space (plug_str pb)) (plug_mapping pb) of
        Inl e \<Rightarrow> Inl e
      | Inr mapping' \<Rightarrow> Inr (pb\<lparr>plug_mapping := mapping'\<rparr>))"

definition Plugboard_init :: "int \<Rightarrow> int \<Rightarrow> int list list \<Rightarrow> error + Plugboard" where
  "Plugboard_init A numPairs shs =
     (case getRandomPlugboardString numPairs shs of
        Inl e \<Rightarrow> Inl e
      | Inr s \<Rightarrow> Plugboard_setup A \<lparr>plug_mapping = ALPHABET_UNIVERSE A, plug_str = s\<rparr>)"

text \<open>
  \<^verbatim>\<open>Enigma.__init__\<close>: the rotor assembly, then the plugboard, then an empty
  \<^verbatim>\<open>ConfigParser\<close>.
\<close>

definition Enigma_init ::
  "int \<Rightarrow> int \<Rightarrow> nat \<Rightarrow> (int list \<times> int) list \<Rightarrow> int list \<Rightarrow> int \<Rightarrow> int list list \<Rightarrow> error + Enigma" where
  "Enigma_init dflt A N draws refl_sh numPairs shs =
     (let asm = RotorAssembly_init dflt N draws refl_sh
      in case Plugboard_init A numPairs shs of
           Inl e \<Rightarrow> Inl e
         | Inr pb \<Rightarrow> Inr \<lparr>rotor_asm = asm, plugboard = pb, config = (\<lambda>_. None)\<rparr>)"

text \<open>
  The pairs the loop of \<^verbatim>\<open>getRandomPlugboardString\<close> pops, one per round: the first two
  numbers of each shuffled deque.
\<close>

definition popped_pairs :: "int list list \<Rightarrow> (int \<times> int) list" where
  "popped_pairs shs = map (\<lambda>sh. (sh ! 0, sh ! 1)) shs"

text \<open>
  Names for the proofs about the plugboard: the character of a letter number, the token
  the loop writes for a popped pair, what \<^verbatim>\<open>__connect\<close> does to the list for a pair,
  a pair of two distinct alphabet indices, and the letters of a list of pairs.
\<close>

definition letter :: "int \<Rightarrow> char" where
  "letter n = char_of (97 + n)"

definition key_of :: "int \<times> int \<Rightarrow> string" where
  "key_of p = [letter (fst p), letter (snd p)]"

definition connect_step :: "int \<times> int \<Rightarrow> int list \<Rightarrow> int list" where
  "connect_step p m = m[nat (fst p) := snd p, nat (snd p) := fst p]"

definition pair_ok :: "int \<Rightarrow> int \<times> int \<Rightarrow> bool" where
  "pair_ok A p = (fst p \<noteq> snd p \<and> 0 \<le> fst p \<and> fst p < A \<and> 0 \<le> snd p \<and> snd p < A)"

definition pair_letters :: "(int \<times> int) list \<Rightarrow> int list" where
  "pair_letters ps = concat (map (\<lambda>(a, b). [a, b]) ps)"

section \<open>Saving and loading the configuration\<close>

text \<open>
  The library's writers. \<^verbatim>\<open>str(n)\<close> is the decimal numeral of \<open>n\<close>, and
  \<^verbatim>\<open>json.dumps\<close> of a list of integers writes \<^verbatim>\<open>[1, 2, 3]\<close>.
\<close>

definition digit_char :: "nat \<Rightarrow> char" where
  "digit_char d = char_of (48 + d)"

function str_nat :: "nat \<Rightarrow> string" where
  "str_nat n = (if n < 10 then [digit_char n] else str_nat (n div 10) @ [digit_char (n mod 10)])"
  by pat_completeness auto
termination
  by (relation "measure (\<lambda>n. n)") auto

declare str_nat.simps [simp del]

definition py_str :: "int \<Rightarrow> string" where
  "py_str i = (if i < 0 then CHR ''-'' # str_nat (nat (- i)) else str_nat (nat i))"

fun join_comma :: "string list \<Rightarrow> string" where
  "join_comma [] = []"
| "join_comma [k] = k"
| "join_comma (k # ks) = k @ CHR '','' # CHR '' '' # join_comma ks"

definition json_dumps :: "int list \<Rightarrow> string" where
  "json_dumps xs = CHR ''['' # join_comma (map py_str xs) @ [CHR '']'']"

text \<open>
  The \<^verbatim>\<open>ConfigParser\<close> operations the program uses. Option names pass through
  \<^verbatim>\<open>optionxform\<close>, which lower-cases them. \<open>cfg_put\<close> is the pair of statements every
  \<^verbatim>\<open>saveCfg\<close> runs for an option: create the section when \<^verbatim>\<open>cfg.sections()\<close> lacks it,
  then store the text. \<open>cfg_get\<close> is \<^verbatim>\<open>cfg[section][option]\<close>, a \<^verbatim>\<open>KeyError\<close> when either
  is missing. The \<^verbatim>\<open>DEFAULT\<close> section and value interpolation are not modelled; the
  program writes neither a default nor a percent sign.
\<close>

definition cfg_put :: "cfg \<Rightarrow> string \<Rightarrow> string \<Rightarrow> string \<Rightarrow> cfg" where
  "cfg_put c sec opt v =
     (case c sec of
        None \<Rightarrow> c(sec \<mapsto> [py_lower opt \<mapsto> v])
      | Some kv \<Rightarrow> c(sec \<mapsto> kv(py_lower opt \<mapsto> v)))"

definition cfg_get :: "cfg \<Rightarrow> string \<Rightarrow> string \<Rightarrow> error + string" where
  "cfg_get c sec opt =
     (case c sec of
        None \<Rightarrow> Inl KeyError
      | Some kv \<Rightarrow> (case kv (py_lower opt) of None \<Rightarrow> Inl KeyError | Some v \<Rightarrow> Inr v))"

text \<open>
  \<^verbatim>\<open>config.read(path)\<close> merges the file's sections into the parser: an option of the file
  replaces the parser's, the others stay. A file is kept as the sections written to it;
  its text encoding is outside the model.
\<close>

definition cfg_read :: "cfg \<Rightarrow> cfg \<Rightarrow> cfg" where
  "cfg_read c file =
     (\<lambda>sec. case file sec of
              None \<Rightarrow> c sec
            | Some kv \<Rightarrow> Some ((case c sec of None \<Rightarrow> Map.empty | Some kv0 \<Rightarrow> kv0) ++ kv))"

text \<open>
  The library's readers \<^verbatim>\<open>int(s)\<close> and \<^verbatim>\<open>json.loads(s)\<close> are not modelled. Every
  loading function takes them as its parameters \<open>py_int\<close> and \<open>json_loads\<close>, and the
  theorems ask of them only what the library gives: they read back what \<^verbatim>\<open>str\<close> and
  \<^verbatim>\<open>json.dumps\<close> wrote.
\<close>

definition AlphabetRing_saveCfg :: "AlphabetRing \<Rightarrow> cfg \<Rightarrow> string \<Rightarrow> cfg" where
  "AlphabetRing_saveCfg ring c cfgSection = cfg_put c cfgSection ''notch'' (py_str (notch ring))"

definition AlphabetRing_loadCfg :: "(string \<Rightarrow> error + int) \<Rightarrow> cfg \<Rightarrow> string \<Rightarrow> error + AlphabetRing" where
  "AlphabetRing_loadCfg py_int c cfgSection =
     (case cfg_get c cfgSection ''notch'' of
        Inl e \<Rightarrow> Inl e
      | Inr t \<Rightarrow> (case py_int t of Inl e \<Rightarrow> Inl e | Inr n \<Rightarrow> Inr \<lparr>notch = n\<rparr>))"

definition RotorDisc_saveCfg :: "int list \<Rightarrow> cfg \<Rightarrow> string \<Rightarrow> cfg" where
  "RotorDisc_saveCfg mapping c cfgSection = cfg_put c cfgSection ''config'' (json_dumps mapping)"

definition RotorDisc_loadCfg :: "(string \<Rightarrow> error + int list) \<Rightarrow> cfg \<Rightarrow> string \<Rightarrow> error + int list" where
  "RotorDisc_loadCfg json_loads c cfgSection =
     (case cfg_get c cfgSection ''config'' of Inl e \<Rightarrow> Inl e | Inr t \<Rightarrow> json_loads t)"

definition Reflector_saveCfg :: "int list \<Rightarrow> cfg \<Rightarrow> string \<Rightarrow> cfg" where
  "Reflector_saveCfg mapping c cfgSection = cfg_put c cfgSection ''config'' (json_dumps mapping)"

definition Reflector_loadCfg :: "(string \<Rightarrow> error + int list) \<Rightarrow> cfg \<Rightarrow> string \<Rightarrow> error + int list" where
  "Reflector_loadCfg json_loads c cfgSection =
     (case cfg_get c cfgSection ''config'' of Inl e \<Rightarrow> Inl e | Inr t \<Rightarrow> json_loads t)"

definition Plugboard_saveCfg :: "Plugboard \<Rightarrow> cfg \<Rightarrow> string \<Rightarrow> cfg" where
  "Plugboard_saveCfg pb c cfgSection = cfg_put c cfgSection ''settings'' (plug_str pb)"

text \<open>\<^verbatim>\<open>Plugboard.loadCfg\<close>; \<^verbatim>\<open>Enigma.loadCfg\<close> never calls it.\<close>

definition Plugboard_loadCfg :: "int \<Rightarrow> cfg \<Rightarrow> string \<Rightarrow> Plugboard \<Rightarrow> error + Plugboard" where
  "Plugboard_loadCfg A c cfgSection pb =
     (case cfg_get c cfgSection ''settings'' of
        Inl e \<Rightarrow> Inl e
      | Inr t \<Rightarrow> Plugboard_setup A (pb\<lparr>plug_str := t\<rparr>))"

definition Rotor_saveCfg :: "Rotor \<Rightarrow> cfg \<Rightarrow> string \<Rightarrow> cfg" where
  "Rotor_saveCfg rt c cfgSection =
     (let c1 = cfg_put c cfgSection ''Ringstellung'' (py_str (ringstellung rt));
          c2 = RotorDisc_saveCfg (rotor_disc rt) c1 cfgSection
      in AlphabetRing_saveCfg (alphabet_ring rt) c2 cfgSection)"

text \<open>
  \<^verbatim>\<open>Rotor.loadCfg\<close> assigns the ring offset, then the disc, then the ring; an exception
  leaves the fields assigned before it.
\<close>

definition Rotor_loadCfg ::
  "(string \<Rightarrow> error + int) \<Rightarrow> (string \<Rightarrow> error + int list) \<Rightarrow> cfg \<Rightarrow> string \<Rightarrow> Rotor
   \<Rightarrow> (error + unit) \<times> Rotor" where
  "Rotor_loadCfg py_int json_loads c cfgSection rt =
     (case cfg_get c cfgSection ''Ringstellung'' of
        Inl e \<Rightarrow> (Inl e, rt)
      | Inr t \<Rightarrow>
          (case py_int t of
             Inl e \<Rightarrow> (Inl e, rt)
           | Inr n \<Rightarrow>
               (let rt1 = rt\<lparr>ringstellung := n\<rparr>
                in case RotorDisc_loadCfg json_loads c cfgSection of
                     Inl e \<Rightarrow> (Inl e, rt1)
                   | Inr m \<Rightarrow>
                       (let rt2 = rt1\<lparr>rotor_disc := m\<rparr>
                        in case AlphabetRing_loadCfg py_int c cfgSection of
                             Inl e \<Rightarrow> (Inl e, rt2)
                           | Inr ring \<Rightarrow> (Inr (), rt2\<lparr>alphabet_ring := ring\<rparr>)))))"

text \<open>\<^verbatim>\<open>"Rotor_{0}".format(idx+1)\<close>.\<close>

definition rotorSectionName :: "nat \<Rightarrow> string" where
  "rotorSectionName idx = ''Rotor_'' @ py_str (int idx + 1)"

text \<open>The loops over \<^verbatim>\<open>enumerate(self._rotors)\<close>, from index \<open>idx\<close> on.\<close>

fun rotors_saveCfg :: "nat \<Rightarrow> Rotor list \<Rightarrow> cfg \<Rightarrow> cfg" where
  "rotors_saveCfg idx [] c = c"
| "rotors_saveCfg idx (rt # rts) c =
     rotors_saveCfg (idx + 1) rts (Rotor_saveCfg rt c (rotorSectionName idx))"

fun rotors_loadCfg ::
  "(string \<Rightarrow> error + int) \<Rightarrow> (string \<Rightarrow> error + int list) \<Rightarrow> cfg \<Rightarrow> nat \<Rightarrow> Rotor list
   \<Rightarrow> (error + unit) \<times> Rotor list" where
  "rotors_loadCfg py_int json_loads c idx [] = (Inr (), [])"
| "rotors_loadCfg py_int json_loads c idx (rt # rts) =
     (case Rotor_loadCfg py_int json_loads c (rotorSectionName idx) rt of
        (Inl e, rt') \<Rightarrow> (Inl e, rt' # rts)
      | (Inr u, rt') \<Rightarrow>
          (case rotors_loadCfg py_int json_loads c (idx + 1) rts of (res, rts') \<Rightarrow> (res, rt' # rts')))"

definition RotorAssembly_saveCfg :: "RotorAssembly \<Rightarrow> cfg \<Rightarrow> cfg" where
  "RotorAssembly_saveCfg s c =
     rotors_saveCfg 0 (rotors s) (Reflector_saveCfg (reflector s) c ''Reflector'')"

definition RotorAssembly_loadCfg ::
  "(string \<Rightarrow> error + int) \<Rightarrow> (string \<Rightarrow> error + int list) \<Rightarrow> cfg \<Rightarrow> RotorAssembly
   \<Rightarrow> (error + unit) \<times> RotorAssembly" where
  "RotorAssembly_loadCfg py_int json_loads c s =
     (case (if c ''Reflector'' \<noteq> None
            then (case Reflector_loadCfg json_loads c ''Reflector'' of
                    Inl e \<Rightarrow> Inl e
                  | Inr m \<Rightarrow> Inr (s\<lparr>reflector := m\<rparr>))
            else Inr s) of
        Inl e \<Rightarrow> (Inl e, s)
      | Inr s1 \<Rightarrow>
          (case rotors_loadCfg py_int json_loads c 0 (rotors s1) of (res, rts') \<Rightarrow> (res, s1\<lparr>rotors := rts'\<rparr>)))"

text \<open>
  The file system: the configuration files by path. \<^verbatim>\<open>isConfigFilePresent\<close> is whether
  the path has a file.
\<close>

type_synonym files = "string \<Rightarrow> cfg option"

definition Enigma_loadCfg ::
  "(string \<Rightarrow> error + int) \<Rightarrow> (string \<Rightarrow> error + int list) \<Rightarrow> string \<Rightarrow> files \<Rightarrow> Enigma
   \<Rightarrow> (error + unit) \<times> Enigma" where
  "Enigma_loadCfg py_int json_loads configFilePath fs e =
     (case fs configFilePath of
        None \<Rightarrow> (Inr (), e)
      | Some file \<Rightarrow>
          (let e1 = e\<lparr>config := cfg_read (config e) file\<rparr>
           in case RotorAssembly_loadCfg py_int json_loads (config e1) (rotor_asm e1) of
                (res, asm') \<Rightarrow> (res, e1\<lparr>rotor_asm := asm'\<rparr>)))"

definition Enigma_saveCfg :: "string \<Rightarrow> files \<Rightarrow> Enigma \<Rightarrow> Enigma \<times> files" where
  "Enigma_saveCfg configFilePath fs e =
     (let c1 = RotorAssembly_saveCfg (rotor_asm e) (config e);
          c2 = Plugboard_saveCfg (plugboard e) c1 ''Plugboard''
      in (e\<lparr>config := c2\<rparr>, fs(configFilePath \<mapsto> c2)))"

text \<open>
  Two readers that read back what the writers wrote, for the examples: the numerals of
  \<open>py_str\<close> and the arrays of \<open>json_dumps\<close>, and no other text. They stand for no
  library function.
\<close>

definition digit_val :: "char \<Rightarrow> nat option" where
  "digit_val c = (let k = of_char c :: nat in if 48 \<le> k \<and> k \<le> 57 then Some (k - 48) else None)"

fun parse_nat :: "string \<Rightarrow> nat \<Rightarrow> nat option" where
  "parse_nat [] acc = Some acc"
| "parse_nat (c # cs) acc =
     (case digit_val c of None \<Rightarrow> None | Some d \<Rightarrow> parse_nat cs (10 * acc + d))"

definition read_decimal :: "string \<Rightarrow> error + int" where
  "read_decimal s =
     (case s of
        [] \<Rightarrow> Inl ValueError
      | c # ds \<Rightarrow>
          if c = CHR ''-''
          then (if ds = [] then Inl ValueError
                else (case parse_nat ds 0 of None \<Rightarrow> Inl ValueError | Some n \<Rightarrow> Inr (- int n)))
          else (case parse_nat s 0 of None \<Rightarrow> Inl ValueError | Some n \<Rightarrow> Inr (int n)))"

fun split_comma :: "string \<Rightarrow> string list" where
  "split_comma [] = [[]]"
| "split_comma [c] = [[c]]"
| "split_comma (c # d # cs) =
     (if c = CHR '','' \<and> d = CHR '' '' then [] # split_comma cs
      else (case split_comma (d # cs) of t # ts \<Rightarrow> (c # t) # ts | [] \<Rightarrow> [[c]]))"

fun map_err :: "('a \<Rightarrow> error + 'b) \<Rightarrow> 'a list \<Rightarrow> error + 'b list" where
  "map_err f [] = Inr []"
| "map_err f (x # xs) =
     (case f x of
        Inl e \<Rightarrow> Inl e
      | Inr y \<Rightarrow> (case map_err f xs of Inl e \<Rightarrow> Inl e | Inr ys \<Rightarrow> Inr (y # ys)))"

definition read_int_array :: "string \<Rightarrow> error + int list" where
  "read_int_array s =
     (case s of
        [] \<Rightarrow> Inl ValueError
      | c # rest \<Rightarrow>
          if c \<noteq> CHR ''['' \<or> rest = [] \<or> last rest \<noteq> CHR '']'' then Inl ValueError
          else (let body = butlast rest
                in if body = [] then Inr [] else map_err read_decimal (split_comma body)))"

text \<open>What a rotor's section holds after \<^verbatim>\<open>Rotor.saveCfg\<close>: the three options, as written.\<close>

definition rotor_saved :: "cfg \<Rightarrow> string \<Rightarrow> Rotor \<Rightarrow> bool" where
  "rotor_saved c sec rt =
     (cfg_get c sec ''Ringstellung'' = Inr (py_str (ringstellung rt))
      \<and> cfg_get c sec ''config'' = Inr (json_dumps (rotor_disc rt))
      \<and> cfg_get c sec ''notch'' = Inr (py_str (notch (alphabet_ring rt))))"

text \<open>
  The parser's content after \<^verbatim>\<open>Enigma.saveCfg\<close>, which is also what it writes to the
  file.
\<close>

definition saved_cfg :: "Enigma \<Rightarrow> cfg" where
  "saved_cfg e =
     Plugboard_saveCfg (plugboard e) (RotorAssembly_saveCfg (rotor_asm e) (config e)) ''Plugboard''"

section \<open>Well-formed machines and the signal path of the spec\<close>

text \<open>
  A table of the machine (a disc, the reflector, the plugboard list) is well formed when
  it has \<open>A\<close> entries, each an alphabet index. Every table a constructor builds is, and
  rotation keeps it so.
\<close>

definition table_ok :: "int \<Rightarrow> int list \<Rightarrow> bool" where
  "table_ok A m = (length m = nat A \<and> list_all (\<lambda>v. 0 \<le> v \<and> v < A) m)"

definition Enigma_ok :: "int \<Rightarrow> Enigma \<Rightarrow> bool" where
  "Enigma_ok A e =
     (0 < A
      \<and> table_ok A (plug_mapping (plugboard e))
      \<and> table_ok A (reflector (rotor_asm e))
      \<and> list_all (\<lambda>rt. table_ok A (rotor_disc rt)) (rotors (rotor_asm e)))"

text \<open>
  The signal path as the spec words it, on plain values with no error handling: a rotor
  stage returns the disc's entry at \<open>(i + ringOffset) mod A\<close>; the path is the
  plugboard, the rotors in order, the reflector, the rotors in reverse order, and the
  plugboard again.
\<close>

definition spec_rotor_stage :: "int \<Rightarrow> Rotor \<Rightarrow> int \<Rightarrow> int" where
  "spec_rotor_stage A rt i = rotor_disc rt ! nat ((i + ringstellung rt) mod A)"

definition spec_signal_path :: "int \<Rightarrow> Enigma \<Rightarrow> int \<Rightarrow> int" where
  "spec_signal_path A e i =
     (let plug = (\<lambda>v. plug_mapping (plugboard e) ! nat v);
          rs = rotors (rotor_asm e);
          forward = fold (spec_rotor_stage A) rs (plug i);
          reflected = reflector (rotor_asm e) ! nat forward;
          backward = fold (spec_rotor_stage A) (rev rs) reflected
      in plug backward)"

text \<open>What one object of \<^verbatim>\<open>obj_list\<close> computes on a valid input, and when it is well formed.\<close>

definition stage_fun :: "int \<Rightarrow> stage \<Rightarrow> int \<Rightarrow> int" where
  "stage_fun A obj v =
     (case obj of RotorStage rt \<Rightarrow> spec_rotor_stage A rt v | ReflectorStage m \<Rightarrow> m ! nat v)"

definition stage_ok :: "int \<Rightarrow> stage \<Rightarrow> bool" where
  "stage_ok A obj =
     (case obj of RotorStage rt \<Rightarrow> table_ok A (rotor_disc rt) | ReflectorStage m \<Rightarrow> table_ok A m)"

section \<open>Example machines\<close>

text \<open>
  Machines for \<open>A = 26\<close> and three rotors, built by the constructors from draws the
  random module can produce. The reflector swaps \<open>2k\<close> and \<open>2k+1\<close>.
\<close>

definition example_reflector :: "int list" where
  "example_reflector = concat (map (\<lambda>k. [2 * k + 1, 2 * k]) [0..12])"

definition example_draws :: "(int list \<times> int) list" where
  "example_draws = [([1..25] @ [0], 5), (ALPHABET_UNIVERSE 26, 5), (ALPHABET_UNIVERSE 26, 5)]"

definition example_asm :: RotorAssembly where
  "example_asm = RotorAssembly_init 0 3 example_draws example_reflector"

definition example_Enigma :: Enigma where
  "example_Enigma =
     \<lparr>rotor_asm = example_asm,
      plugboard = \<lparr>plug_mapping = [1, 0] @ [2..25], plug_str = ''ab''\<rparr>,
      config = (\<lambda>_. None)\<rparr>"

text \<open>The same with identity discs; the middle rotor's notch is 0.\<close>

definition jammed_draws :: "(int list \<times> int) list" where
  "jammed_draws = [(ALPHABET_UNIVERSE 26, 5), (ALPHABET_UNIVERSE 26, 0), (ALPHABET_UNIVERSE 26, 7)]"

definition jammed_asm :: RotorAssembly where
  "jammed_asm = RotorAssembly_init 0 3 jammed_draws example_reflector"

definition jammed_Enigma :: Enigma where
  "jammed_Enigma =
     \<lparr>rotor_asm = jammed_asm,
      plugboard = \<lparr>plug_mapping = [1, 0] @ [2..25], plug_str = ''ab''\<rparr>,
      config = (\<lambda>_. None)\<rparr>"

text \<open>
  A reflector the constructor can shuffle, \<open>1, 2, 0, 3, 4, \<dots>, 25\<close>, and the machine
  with identity discs around it.
\<close>

definition shuffled_reflector :: "int list" where
  "shuffled_reflector = [1, 2, 0] @ [3..25]"

definition identity_draws :: "(int list \<times> int) list" where
  "identity_draws = [(ALPHABET_UNIVERSE 26, 5), (ALPHABET_UNIVERSE 26, 5), (ALPHABET_UNIVERSE 26, 5)]"

definition identity_Enigma :: Enigma where
  "identity_Enigma =
     \<lparr>rotor_asm = RotorAssembly_init 0 3 identity_draws shuffled_reflector,
      plugboard = \<lparr>plug_mapping = [1, 0] @ [2..25], plug_str = ''ab''\<rparr>,
      config = (\<lambda>_. None)\<rparr>"

text \<open>A second engine, with other rotors and the plugboard \<open>dh za\<close>.\<close>

definition other_Enigma :: Enigma where
  "other_Enigma =
     \<lparr>rotor_asm = jammed_asm,
      plugboard = \<lparr>plug_mapping = [25, 1, 2, 7, 4, 5, 6, 3] @ [8..24] @ [0], plug_str = ''dh za''\<rparr>,
      config = (\<lambda>_. None)\<rparr>"

text \<open>Two rounds of the pairing loop: the pairs \<open>d, h\<close> and \<open>z, a\<close>.\<close>

definition example_shs :: "int list list" where
  "example_shs = [[3, 7] @ [0..2] @ [4..6] @ [8..25], [25, 0, 1, 2] @ [4..6] @ [8..24]]"

section \<open>Basic facts\<close>

lemma in_ALPHABET_UNIVERSE: "num \<in> set (ALPHABET_UNIVERSE A) \<longleftrightarrow> 0 \<le> num \<and> num < A"
  by (auto simp: ALPHABET_UNIVERSE_def)

lemma length_ALPHABET_UNIVERSE: "length (ALPHABET_UNIVERSE A) = nat A"
  by (simp add: ALPHABET_UNIVERSE_def)

lemma py_index_in_range: "0 \<le> i \<Longrightarrow> i < int (length xs) \<Longrightarrow> py_index xs i = Inr (xs ! nat i)"
  by (simp add: py_index_def)

lemma RotorDisc_get_in_range:
  "0 \<le> i \<Longrightarrow> i < A \<Longrightarrow> length m = nat A \<Longrightarrow> RotorDisc_get A m i = Inr (m ! nat i)"
  by (simp add: RotorDisc_get_def in_ALPHABET_UNIVERSE py_index_def)

lemma length_RotorDisc_rotate: "length (RotorDisc_rotate m) = length m"
  by (simp add: RotorDisc_rotate_def)

lemma RotorDisc_rotate_nth:
  assumes "i < length m"
  shows "RotorDisc_rotate m ! i = (if i = 0 then last m else m ! (i - 1))"
proof -
  from assms have ne: "m \<noteq> []" by auto
  show ?thesis
  proof (cases i)
    case 0
    with ne show ?thesis by (simp add: RotorDisc_rotate_def)
  next
    case (Suc k)
    with assms have "k < length (butlast m)" by simp
    with Suc ne show ?thesis by (simp add: RotorDisc_rotate_def nth_butlast)
  qed
qed

lemma Reflector_get_in_range:
  "0 \<le> i \<Longrightarrow> i < A \<Longrightarrow> length m = nat A \<Longrightarrow> Reflector_get A m i = Inr (m ! nat i)"
  by (simp add: Reflector_get_def in_ALPHABET_UNIVERSE py_index_def)

lemma shuffle_universe:
  assumes "shuffle_ok (ALPHABET_UNIVERSE A) sh"
  shows "length sh = nat A" and "distinct sh" and "set sh = {0..<A}"
proof -
  from assms have m: "mset sh = mset (ALPHABET_UNIVERSE A)"
    by (simp add: shuffle_ok_def)
  from m have "length sh = length (ALPHABET_UNIVERSE A)"
    by (rule mset_eq_length)
  then show "length sh = nat A"
    by (simp add: length_ALPHABET_UNIVERSE)
  have "distinct (ALPHABET_UNIVERSE A)"
    by (simp add: ALPHABET_UNIVERSE_def)
  with mset_eq_imp_distinct_iff [OF m] show "distinct sh"
    by simp
  from m have "set sh = set (ALPHABET_UNIVERSE A)"
    by (rule mset_eq_setD)
  then have "x \<in> set sh \<longleftrightarrow> x \<in> {0..<A}" for x
    by (simp add: in_ALPHABET_UNIVERSE)
  then show "set sh = {0..<A}"
    by (rule set_eqI)
qed

lemma table_ok_nth:
  assumes "table_ok A m" "0 \<le> i" "i < A"
  shows "0 \<le> m ! nat i" and "m ! nat i < A"
proof -
  from assms have "nat i < length m" by (simp add: table_ok_def)
  moreover from assms have "\<forall>v\<in>set m. 0 \<le> v \<and> v < A"
    by (simp add: table_ok_def list_all_iff)
  ultimately have "0 \<le> m ! nat i \<and> m ! nat i < A"
    using nth_mem by blast
  then show "0 \<le> m ! nat i" and "m ! nat i < A" by simp_all
qed

lemma Rotor_get_total:
  assumes "0 < A" "length (rotor_disc rt) = nat A"
  shows "Rotor_get A rt num = Inr (spec_rotor_stage A rt num)"
proof -
  have "0 \<le> (num + ringstellung rt) mod A" "(num + ringstellung rt) mod A < A"
    using assms(1) by simp_all
  then show ?thesis
    using assms by (simp add: Rotor_get_def spec_rotor_stage_def RotorDisc_get_in_range)
qed

lemma stage_get_ok:
  assumes "0 < A" "stage_ok A obj" "0 \<le> v" "v < A"
  shows "stage_get A obj v = Inr (stage_fun A obj v)"
    and "0 \<le> stage_fun A obj v" and "stage_fun A obj v < A"
proof -
  show "stage_get A obj v = Inr (stage_fun A obj v)"
  proof (cases obj)
    case (RotorStage rt)
    with assms show ?thesis
      by (simp add: stage_get_def stage_fun_def stage_ok_def Rotor_get_total table_ok_def)
  next
    case (ReflectorStage m)
    with assms show ?thesis
      by (simp add: stage_get_def stage_fun_def stage_ok_def Reflector_get_in_range table_ok_def)
  qed
  have "0 \<le> stage_fun A obj v \<and> stage_fun A obj v < A"
  proof (cases obj)
    case (RotorStage rt)
    have j: "0 \<le> (v + ringstellung rt) mod A" "(v + ringstellung rt) mod A < A"
      using assms(1) by simp_all
    from RotorStage assms have t: "table_ok A (rotor_disc rt)" by (simp add: stage_ok_def)
    from table_ok_nth [OF t j] RotorStage show ?thesis
      by (simp add: stage_fun_def spec_rotor_stage_def)
  next
    case (ReflectorStage m)
    with assms have t: "table_ok A m" by (simp add: stage_ok_def)
    from table_ok_nth [OF t assms(3,4)] ReflectorStage show ?thesis
      by (simp add: stage_fun_def)
  qed
  then show "0 \<le> stage_fun A obj v" and "stage_fun A obj v < A"
    by simp_all
qed

lemma apply_stages_fold:
  assumes A: "0 < A" and ok: "list_all (stage_ok A) objs"
  shows "n = length objs - idx \<Longrightarrow> idx \<le> length objs \<Longrightarrow> 0 \<le> v \<Longrightarrow> v < A \<Longrightarrow>
         apply_stages A objs v idx = Inr (fold (stage_fun A) (drop idx objs) v)"
proof (induction n arbitrary: idx v)
  case 0
  then have "idx = length objs" by simp
  then show ?case by (simp add: apply_stages.simps)
next
  case (Suc n)
  then have lt: "idx < length objs" by simp
  from ok lt have sok: "stage_ok A (objs ! idx)"
    by (simp add: list_all_length)
  note g = stage_get_ok [OF A sok Suc.prems(3,4)]
  have "apply_stages A objs (stage_fun A (objs ! idx) v) (idx + 1)
        = Inr (fold (stage_fun A) (drop (idx + 1) objs) (stage_fun A (objs ! idx) v))"
    using Suc.prems lt g by (intro Suc.IH) simp_all
  moreover have "drop idx objs = objs ! idx # drop (idx + 1) objs"
    using lt by (simp add: Cons_nth_drop_Suc)
  ultimately show ?case
    using lt g(1) by (subst apply_stages.simps) simp
qed

lemma fold_stage_fun_range:
  assumes A: "0 < A"
  shows "list_all (stage_ok A) objs \<Longrightarrow> 0 \<le> v \<Longrightarrow> v < A \<Longrightarrow>
         0 \<le> fold (stage_fun A) objs v \<and> fold (stage_fun A) objs v < A"
proof (induction objs arbitrary: v)
  case Nil
  then show ?case by simp
next
  case (Cons obj objs)
  from Cons.prems have sok: "stage_ok A obj" and rest: "list_all (stage_ok A) objs"
    by simp_all
  note g = stage_get_ok [OF A sok Cons.prems(2,3)]
  from Cons.IH [OF rest g(2,3)] show ?case by simp
qed

lemma fold_obj_list:
  "fold (stage_fun A) (map RotorStage rs @ [ReflectorStage m] @ map RotorStage (rev rs)) v
   = fold (spec_rotor_stage A) (rev rs) (m ! nat (fold (spec_rotor_stage A) rs v))"
proof -
  have c: "stage_fun A \<circ> RotorStage = spec_rotor_stage A"
    by (simp add: fun_eq_iff stage_fun_def)
  show ?thesis
    by (simp add: fold_map c stage_fun_def)
qed

lemma obj_list_ok:
  assumes "table_ok A m" "list_all (\<lambda>rt. table_ok A (rotor_disc rt)) rs"
  shows "list_all (stage_ok A) (map RotorStage rs @ [ReflectorStage m] @ map RotorStage (rev rs))"
  using assms by (simp add: list_all_iff stage_ok_def)

lemma RotorAssembly_get_ok:
  assumes A: "0 < A" and m: "table_ok A (reflector s)"
    and rs: "list_all (\<lambda>rt. table_ok A (rotor_disc rt)) (rotors s)"
    and v: "0 \<le> v" "v < A"
  shows "RotorAssembly_get A v s =
           (case PawlAndRatchetMechanism_rotate A s of
              (Inl e, s') \<Rightarrow> (Inl e, s')
            | (Inr u, s') \<Rightarrow>
                (Inr (fold (spec_rotor_stage A) (rev (rotors s))
                        (reflector s ! nat (fold (spec_rotor_stage A) (rotors s) v))), s'))"
proof -
  let ?objs = "map RotorStage (rotors s) @ [ReflectorStage (reflector s)] @ map RotorStage (rev (rotors s))"
  have ok: "list_all (stage_ok A) ?objs"
    using m rs by (rule obj_list_ok)
  have "apply_stages A ?objs v 0 = Inr (fold (stage_fun A) (drop 0 ?objs) v)"
    using A ok _ _ v by (rule apply_stages_fold) simp_all
  then have "apply_stages A ?objs v 0
      = Inr (fold (spec_rotor_stage A) (rev (rotors s))
               (reflector s ! nat (fold (spec_rotor_stage A) (rotors s) v)))"
    by (simp only: drop_0 fold_obj_list)
  then show ?thesis
    by (simp add: RotorAssembly_get_def Let_def)
qed

section \<open>Facts about the plugboard string and the pairing\<close>

lemma of_char_a: "(of_char CHR ''a'' :: int) = 97"
  by simp

lemma numberToChar_letter:
  assumes "0 \<le> n" "n < 26"
  shows "numberToChar n = Inr (letter n)"
  using assms by (simp add: numberToChar_def letter_def Let_def)

lemma of_char_letter:
  assumes "0 \<le> n" "n < 26"
  shows "(of_char (letter n) :: int) = 97 + n"
  using assms by (simp add: letter_def)

lemma charToNumber_letter:
  assumes "0 \<le> n" "n < 26"
  shows "charToNumber (letter n) = n"
proof -
  have "charToNumber (letter n) = (97 + n) - 97"
    unfolding charToNumber_def by (simp only: of_char_letter [OF assms] of_char_a)
  also have "\<dots> = n" by arith
  finally show ?thesis .
qed

lemma letter_not_space:
  assumes "0 \<le> n" "n < 26"
  shows "letter n \<noteq> CHR '' ''"
proof
  assume eq: "letter n = CHR '' ''"
  have "(of_char (letter n) :: int) = 32"
    unfolding eq by simp
  with of_char_letter [OF assms] have "97 + n = 32"
    by (simp only:)
  with assms show False by arith
qed

lemma letter_inj:
  assumes "0 \<le> a" "a < 26" "0 \<le> b" "b < 26" "letter a = letter b"
  shows "a = b"
proof -
  from assms(5) have "charToNumber (letter a) = charToNumber (letter b)"
    by (simp only:)
  then show ?thesis
    by (simp only: charToNumber_letter [OF assms(1,2)] charToNumber_letter [OF assms(3,4)])
qed

lemma of_char_letter_nat:
  assumes "0 \<le> n" "n < 26"
  shows "(of_char (letter n) :: nat) = nat (97 + n)"
proof -
  have "int (of_char (letter n) :: nat) = (of_char (letter n) :: int)"
    by (simp add: of_char_def)
  with of_char_letter [OF assms] show ?thesis by simp
qed

lemma letter_not_upper:
  assumes "0 \<le> n" "n < 26"
  shows "\<not> (65 \<le> (of_char (letter n) :: nat) \<and> (of_char (letter n) :: nat) \<le> 90)"
proof -
  have "\<not> nat (97 + n) \<le> 90" using assms by arith
  then show ?thesis
    by (simp only: of_char_letter_nat [OF assms]) simp
qed

lemma lower_letter:
  assumes "0 \<le> n" "n < 26"
  shows "(let k = of_char (letter n) :: nat in if 65 \<le> k \<and> k \<le> 90 then char_of (k + 32) else letter n)
         = letter n"
  unfolding Let_def using letter_not_upper [OF assms] by (rule if_not_P)

lemma py_lower_key:
  assumes "0 \<le> a" "a < 26" "0 \<le> b" "b < 26"
  shows "py_lower (key_of (a, b)) = key_of (a, b)"
  unfolding py_lower_def key_of_def
  by (simp only: list.map fst_conv snd_conv lower_letter [OF assms(1,2)] lower_letter [OF assms(3,4)])

lemma split_space_not_Nil: "split_space s \<noteq> []"
  by (induction s) (auto split: list.splits)

lemma split_space_no_space:
  "CHR '' '' \<notin> set k \<Longrightarrow> split_space k = [k]"
  by (induction k) auto

lemma split_space_token:
  "CHR '' '' \<notin> set k \<Longrightarrow> split_space (k @ CHR '' '' # s) = k # split_space s"
  by (induction k) auto

lemma split_join_space:
  "keys \<noteq> [] \<Longrightarrow> \<forall>k \<in> set keys. CHR '' '' \<notin> set k \<Longrightarrow> split_space (join_space keys) = keys"
proof (induction keys rule: join_space.induct)
  case 1
  then show ?case by simp
next
  case (2 k)
  then show ?case by (simp add: split_space_no_space)
next
  case (3 k k' ks)
  then show ?case by (simp add: split_space_token)
qed

lemma key_of_no_space:
  assumes "0 \<le> a" "a < 26" "0 \<le> b" "b < 26"
  shows "CHR '' '' \<notin> set (key_of (a, b))"
  using letter_not_space [OF assms(1,2)] letter_not_space [OF assms(3,4)]
  by (simp add: key_of_def)

lemma pair_loop_keys:
  assumes A: "A \<le> 26"
  shows "\<forall>sh \<in> set shs. 2 \<le> length sh \<and> pair_ok A (sh ! 0, sh ! 1) \<Longrightarrow>
         pair_loop shs keys = Inr (keys @ map key_of (popped_pairs shs))"
proof (induction shs arbitrary: keys)
  case Nil
  then show ?case by (simp add: popped_pairs_def)
next
  case (Cons sh shs)
  from Cons.prems have len: "2 \<le> length sh" and ok: "pair_ok A (sh ! 0, sh ! 1)"
    by simp_all
  from len obtain a b rest where sh: "sh = a # b # rest"
    by (cases sh; cases "tl sh") auto
  from ok sh A have a: "0 \<le> a" "a < 26" and b: "0 \<le> b" "b < 26"
    by (simp_all add: pair_ok_def)
  have rest: "\<forall>sh \<in> set shs. 2 \<le> length sh \<and> pair_ok A (sh ! 0, sh ! 1)"
    using Cons.prems by simp
  have "pair_loop (sh # shs) keys = pair_loop shs (keys @ [[letter a, letter b]])"
    by (simp add: sh numberToChar_letter [OF a] numberToChar_letter [OF b])
  also have "\<dots> = Inr ((keys @ [[letter a, letter b]]) @ map key_of (popped_pairs shs))"
    using rest by (rule Cons.IH)
  also have "(keys @ [[letter a, letter b]]) @ map key_of (popped_pairs shs)
             = keys @ map key_of (popped_pairs (sh # shs))"
    by (simp add: popped_pairs_def key_of_def sh)
  finally show ?case .
qed

lemma shuffles_ok_pairs:
  "shuffles_ok m shs \<Longrightarrow> distinct m \<Longrightarrow> set m \<subseteq> {0..<A} \<Longrightarrow> 2 * length shs \<le> length m \<Longrightarrow>
   (\<forall>sh \<in> set shs. 2 \<le> length sh \<and> pair_ok A (sh ! 0, sh ! 1))
   \<and> distinct (pair_letters (popped_pairs shs))
   \<and> set (pair_letters (popped_pairs shs)) \<subseteq> set m"
proof (induction shs arbitrary: m)
  case Nil
  then show ?case by (simp add: popped_pairs_def pair_letters_def)
next
  case (Cons sh shs)
  from Cons.prems(1) have ms: "mset sh = mset m" and rest_ok: "shuffles_ok (drop 2 sh) shs"
    by (simp_all add: shuffle_ok_def)
  from ms have len: "length sh = length m"
    by (rule mset_eq_length)
  from mset_eq_imp_distinct_iff [OF ms] Cons.prems(2) have dist: "distinct sh"
    by simp
  from ms have st: "set sh = set m"
    by (rule mset_eq_setD)
  from len Cons.prems(4) have len2: "2 \<le> length sh"
    by simp
  then obtain a b rest where sh: "sh = a # b # rest"
    by (cases sh; cases "tl sh") auto
  have d_rest: "distinct rest" and ab: "a \<noteq> b" and a_rest: "a \<notin> set rest" and b_rest: "b \<notin> set rest"
    using dist sh by auto
  have s_rest: "set rest \<subseteq> {0..<A}"
    using st sh Cons.prems(3) by auto
  have l_rest: "2 * length shs \<le> length rest"
    using len sh Cons.prems(4) by simp
  from rest_ok sh have ok': "shuffles_ok rest shs"
    by simp
  note IH = Cons.IH [OF ok' d_rest s_rest l_rest]
  have a_in: "a \<in> set m" and b_in: "b \<in> set m" and rest_m: "set rest \<subseteq> set m"
    using st sh by auto
  have pok: "pair_ok A (sh ! 0, sh ! 1)"
    using ab a_in b_in Cons.prems(3) sh by (auto simp: pair_ok_def)
  have letters: "pair_letters (popped_pairs (sh # shs)) = a # b # pair_letters (popped_pairs shs)"
    by (simp add: pair_letters_def popped_pairs_def sh)
  have "distinct (a # b # pair_letters (popped_pairs shs))"
    using IH ab a_rest b_rest by auto
  moreover have "set (a # b # pair_letters (popped_pairs shs)) \<subseteq> set m"
    using IH a_in b_in rest_m by auto
  ultimately show ?case
    using IH len2 pok by (simp add: letters)
qed

lemma Plugboard_connect_ok:
  assumes A: "A \<le> 26" and p: "pair_ok A (a, b)" and len: "length m = nat A"
  shows "Plugboard_connect A (letter a) (letter b) m = Inr (connect_step (a, b) m)"
proof -
  from p A have a: "0 \<le> a" "a < 26" and b: "0 \<le> b" "b < 26" and ab: "a \<noteq> b"
    and aA: "a < A" and bA: "b < A"
    by (simp_all add: pair_ok_def)
  have neq: "letter a \<noteq> letter b"
    using letter_inj [OF a b] ab by blast
  have s1: "py_setitem m a b = Inr (m[nat a := b])"
    using a(1) aA len by (simp add: py_setitem_def)
  have s2: "py_setitem (m[nat a := b]) b a = Inr (m[nat a := b, nat b := a])"
    using b(1) bA len by (simp add: py_setitem_def)
  show ?thesis
    unfolding Plugboard_connect_def Let_def charToNumber_letter [OF a] charToNumber_letter [OF b]
    using neq a(1) aA b(1) bA s1 s2
    by (simp add: in_ALPHABET_UNIVERSE connect_step_def)
qed

lemma length_connect_step: "length (connect_step p m) = length m"
  by (simp add: connect_step_def)

lemma setup_loop_keys:
  assumes A: "A \<le> 26"
  shows "\<forall>p \<in> set ps. pair_ok A p \<Longrightarrow> length m = nat A \<Longrightarrow>
         setup_loop A (map key_of ps) m = Inr (fold connect_step ps m)"
proof (induction ps arbitrary: m)
  case Nil
  then show ?case by simp
next
  case (Cons p ps)
  obtain a b where pab: "p = (a, b)" by (cases p)
  from Cons.prems pab have p: "pair_ok A (a, b)" by simp
  from p A have a: "0 \<le> a" "a < 26" and b: "0 \<le> b" "b < 26"
    by (simp_all add: pair_ok_def)
  have low: "py_lower (key_of (a, b)) = [letter a, letter b]"
    using py_lower_key [OF a b] by (simp only: key_of_def fst_conv snd_conv)
  have i0: "py_index [letter a, letter b] 0 = Inr (letter a)"
    and i1: "py_index [letter a, letter b] 1 = Inr (letter b)"
    by (simp_all add: py_index_def)
  have con: "Plugboard_connect A (letter a) (letter b) m = Inr (connect_step (a, b) m)"
    using A p Cons.prems(2) by (rule Plugboard_connect_ok)
  have "setup_loop A (map key_of (p # ps)) m = setup_loop A (map key_of ps) (connect_step (a, b) m)"
    unfolding pab list.map setup_loop.simps Let_def low
    by (simp only: i0 i1 con sum.case)
  also have "\<dots> = Inr (fold connect_step ps (connect_step (a, b) m))"
    using Cons.prems by (intro Cons.IH) (simp_all add: length_connect_step)
  finally show ?case by (simp add: pab)
qed

lemma fold_connect_step:
  "distinct (pair_letters ps) \<Longrightarrow> \<forall>p \<in> set ps. pair_ok A p \<Longrightarrow> length m = nat A \<Longrightarrow>
   length (fold connect_step ps m) = nat A
   \<and> (\<forall>p \<in> set ps. fold connect_step ps m ! nat (fst p) = snd p
                    \<and> fold connect_step ps m ! nat (snd p) = fst p)
   \<and> (\<forall>x. 0 \<le> x \<and> x < A \<and> x \<notin> set (pair_letters ps) \<longrightarrow>
          fold connect_step ps m ! nat x = m ! nat x)"
proof (induction ps arbitrary: m)
  case Nil
  then show ?case by (simp add: pair_letters_def)
next
  case (Cons p ps)
  obtain a b where pab: "p = (a, b)" by (cases p)
  let ?m' = "connect_step (a, b) m"
  let ?r = "fold connect_step ps ?m'"
  from Cons.prems(2) pab have p: "pair_ok A (a, b)" by simp
  then have a: "0 \<le> a" "a < A" and b: "0 \<le> b" "b < A" and ab: "a \<noteq> b"
    by (simp_all add: pair_ok_def)
  have letters: "pair_letters (p # ps) = a # b # pair_letters ps"
    by (simp add: pair_letters_def pab)
  from Cons.prems(1) have d: "distinct (pair_letters ps)"
    and an: "a \<notin> set (pair_letters ps)" and bn: "b \<notin> set (pair_letters ps)"
    by (simp_all add: letters)
  have len': "length ?m' = nat A"
    using Cons.prems(3) by (simp add: length_connect_step)
  have rest: "\<forall>p \<in> set ps. pair_ok A p"
    using Cons.prems(2) by simp
  note IH = Cons.IH [OF d rest len']
  have na: "nat a < length m" and nb: "nat b < length m" and nab: "nat a \<noteq> nat b"
    using a b ab Cons.prems(3) by simp_all
  have ma: "?m' ! nat a = b" and mb: "?m' ! nat b = a"
    using na nb nab by (simp_all add: connect_step_def)
  have ra: "?r ! nat a = b"
    using IH a an ma by simp
  have rb: "?r ! nat b = a"
    using IH b bn mb by simp
  have other: "?r ! nat x = m ! nat x"
    if "0 \<le> x" "x < A" "x \<notin> set (pair_letters (p # ps))" for x
  proof -
    from that have xa: "x \<noteq> a" and xb: "x \<noteq> b" and xn: "x \<notin> set (pair_letters ps)"
      by (simp_all add: letters)
    from xa xb that a b have "nat x \<noteq> nat a" "nat x \<noteq> nat b" by simp_all
    then have "?m' ! nat x = m ! nat x"
      by (simp add: connect_step_def)
    moreover have "?r ! nat x = ?m' ! nat x"
      using IH that xn by simp
    ultimately show ?thesis by simp
  qed
  have f: "fold connect_step (p # ps) m = ?r"
    by (simp add: pab)
  show ?case
    unfolding f using IH ra rb other by (auto simp: pab)
qed

lemma ALPHABET_UNIVERSE_nth:
  assumes "0 \<le> x" "x < A"
  shows "ALPHABET_UNIVERSE A ! nat x = x"
proof -
  have "[0..A - 1] ! nat x = 0 + int (nat x)"
    using assms by (intro nth_upto) simp
  with assms show ?thesis by (simp add: ALPHABET_UNIVERSE_def)
qed

lemma in_pair_letters:
  "x \<in> set (pair_letters ps) \<longleftrightarrow> (\<exists>p \<in> set ps. x = fst p \<or> x = snd p)"
  by (induction ps) (auto simp: pair_letters_def)

section \<open>Facts about the codecs and the configuration\<close>

lemma of_char_digit:
  assumes "d < 10"
  shows "(of_char (digit_char d) :: nat) = 48 + d"
proof -
  have "(of_char (digit_char d) :: nat) = (48 + d) mod 256"
    unfolding digit_char_def by (rule of_char_of)
  also have "\<dots> = 48 + d" using assms by simp
  finally show ?thesis .
qed

lemma digit_val_digit_char:
  assumes "d < 10"
  shows "digit_val (digit_char d) = Some d"
proof -
  have "48 \<le> 48 + d \<and> 48 + d \<le> 57" using assms by arith
  then show ?thesis
    unfolding digit_val_def Let_def of_char_digit [OF assms] by simp
qed

lemma digit_char_neq:
  assumes "d < 10" "(of_char c :: nat) < 48 \<or> 57 < (of_char c :: nat)"
  shows "digit_char d \<noteq> c"
proof
  assume eq: "digit_char d = c"
  have "(of_char c :: nat) = 48 + d"
    using of_char_digit [OF assms(1)] by (simp only: eq)
  with assms show False by arith
qed

lemma digit_char_not_minus: "d < 10 \<Longrightarrow> digit_char d \<noteq> CHR ''-''"
  by (rule digit_char_neq) simp_all

lemma digit_char_not_comma: "d < 10 \<Longrightarrow> digit_char d \<noteq> CHR '',''"
  by (rule digit_char_neq) simp_all

lemma parse_nat_snoc:
  assumes "d < 10"
  shows "parse_nat (ds @ [digit_char d]) acc
         = (case parse_nat ds acc of None \<Rightarrow> None | Some m \<Rightarrow> Some (10 * m + d))"
proof (induction ds arbitrary: acc)
  case Nil
  show ?case by (simp add: digit_val_digit_char [OF assms])
next
  case (Cons c ds)
  show ?case
  proof (cases "digit_val c")
    case None
    then show ?thesis by simp
  next
    case (Some k)
    then show ?thesis by (simp add: Cons.IH)
  qed
qed

lemma parse_nat_str_nat: "parse_nat (str_nat n) 0 = Some n"
proof (induction n rule: str_nat.induct)
  case (1 n)
  show ?case
  proof (cases "n < 10")
    case True
    then show ?thesis
      by (subst str_nat.simps) (simp add: digit_val_digit_char)
  next
    case False
    have d: "n mod 10 < 10" by simp
    from False have "parse_nat (str_nat (n div 10)) 0 = Some (n div 10)"
      by (rule "1.IH")
    then have "parse_nat (str_nat (n div 10) @ [digit_char (n mod 10)]) 0 = Some (10 * (n div 10) + n mod 10)"
      by (simp add: parse_nat_snoc [OF d])
    with False show ?thesis
      by (subst str_nat.simps) simp
  qed
qed

lemma str_nat_digits: "c \<in> set (str_nat n) \<Longrightarrow> \<exists>d < 10. c = digit_char d"
proof (induction n rule: str_nat.induct)
  case (1 n)
  show ?case
  proof (cases "n < 10")
    case True
    with "1.prems" have "c = digit_char n"
      by (subst (asm) str_nat.simps) simp
    with True show ?thesis by blast
  next
    case False
    with "1.prems" have "c \<in> set (str_nat (n div 10)) \<or> c = digit_char (n mod 10)"
      by (subst (asm) str_nat.simps) auto
    then show ?thesis
    proof
      assume "c \<in> set (str_nat (n div 10))"
      with False show ?thesis by (rule "1.IH")
    next
      assume "c = digit_char (n mod 10)"
      moreover have "n mod 10 < 10" by simp
      ultimately show ?thesis by blast
    qed
  qed
qed

lemma str_nat_not_Nil: "str_nat n \<noteq> []"
  by (subst str_nat.simps) simp

lemma str_nat_hd: "\<exists>c ds. str_nat n = c # ds \<and> c \<noteq> CHR ''-''"
proof -
  obtain c ds where s: "str_nat n = c # ds"
    using str_nat_not_Nil [of n] by (cases "str_nat n") auto
  then have "c \<in> set (str_nat n)" by simp
  then obtain d where "d < 10" "c = digit_char d"
    using str_nat_digits by blast
  then have "c \<noteq> CHR ''-''" by (simp only: digit_char_not_minus not_False_eq_True)
  with s show ?thesis by blast
qed

lemma read_decimal_py_str: "read_decimal (py_str i) = Inr i"
proof (cases "i < 0")
  case True
  then show ?thesis
    by (simp add: py_str_def read_decimal_def str_nat_not_Nil parse_nat_str_nat)
next
  case False
  obtain c ds where s: "str_nat (nat i) = c # ds" and c: "c \<noteq> CHR ''-''"
    using str_nat_hd by blast
  have "parse_nat (c # ds) 0 = Some (nat i)"
    using parse_nat_str_nat [of "nat i"] by (simp only: s)
  with False c show ?thesis
    by (simp add: py_str_def read_decimal_def s del: parse_nat.simps)
qed

lemma py_str_inj: "py_str i = py_str j \<Longrightarrow> i = j"
proof -
  assume "py_str i = py_str j"
  then have "read_decimal (py_str i) = read_decimal (py_str j)" by (simp only:)
  then show "i = j" by (simp only: read_decimal_py_str sum.inject)
qed

lemma py_str_no_comma: "CHR '','' \<notin> set (py_str i)"
proof
  assume "CHR '','' \<in> set (py_str i)"
  then have "CHR '','' \<in> set (str_nat (nat (- i))) \<or> CHR '','' \<in> set (str_nat (nat i))"
    by (auto simp: py_str_def split: if_splits)
  then obtain n where "CHR '','' \<in> set (str_nat n)" by blast
  then obtain d where "d < 10" "CHR '','' = digit_char d"
    using str_nat_digits by blast
  with digit_char_not_comma [of d] show False by (simp only:) simp
qed

lemma py_str_not_Nil: "py_str i \<noteq> []"
  by (simp add: py_str_def str_nat_not_Nil)

lemma split_comma_not_Nil: "split_comma s \<noteq> []"
  by (induction s rule: split_comma.induct) (auto split: list.splits)

lemma split_comma_no_comma: "CHR '','' \<notin> set k \<Longrightarrow> split_comma k = [k]"
  by (induction k rule: split_comma.induct) auto

lemma split_comma_token:
  "CHR '','' \<notin> set k \<Longrightarrow> split_comma (k @ CHR '','' # CHR '' '' # s) = k # split_comma s"
proof (induction k)
  case Nil
  then show ?case by simp
next
  case (Cons c k)
  then have c: "c \<noteq> CHR '',''" and k: "CHR '','' \<notin> set k" by auto
  note IH = Cons.IH [OF k]
  show ?case
  proof (cases k)
    case Nil
    with c show ?thesis by simp
  next
    case (Cons d k')
    with IH c show ?thesis by simp
  qed
qed

lemma split_join_comma:
  "keys \<noteq> [] \<Longrightarrow> \<forall>k \<in> set keys. CHR '','' \<notin> set k \<Longrightarrow> split_comma (join_comma keys) = keys"
proof (induction keys rule: join_comma.induct)
  case 1
  then show ?case by simp
next
  case (2 k)
  then show ?case by (simp add: split_comma_no_comma)
next
  case (3 k k' ks)
  then show ?case by (simp add: split_comma_token)
qed

lemma join_comma_not_Nil: "keys \<noteq> [] \<Longrightarrow> hd keys \<noteq> [] \<Longrightarrow> join_comma keys \<noteq> []"
  by (induction keys rule: join_comma.induct) auto

lemma map_err_read_decimal: "map_err read_decimal (map py_str xs) = Inr xs"
  by (induction xs) (simp_all add: read_decimal_py_str)

lemma read_int_array_json_dumps: "read_int_array (json_dumps xs) = Inr xs"
proof (cases xs)
  case Nil
  then show ?thesis by (simp add: read_int_array_def json_dumps_def)
next
  case (Cons x xs')
  let ?body = "join_comma (map py_str xs)"
  have ne: "?body \<noteq> []"
    using Cons by (intro join_comma_not_Nil) (simp_all add: py_str_not_Nil)
  have sp: "split_comma ?body = map py_str xs"
    using Cons by (intro split_join_comma) (auto simp: py_str_no_comma)
  show ?thesis
    using ne by (simp add: read_int_array_def json_dumps_def Let_def sp map_err_read_decimal)
qed

lemma option_names:
  "py_lower ''Ringstellung'' \<noteq> py_lower ''config''"
  "py_lower ''Ringstellung'' \<noteq> py_lower ''notch''"
  "py_lower ''config'' \<noteq> py_lower ''notch''"
  by code_simp+

lemma cfg_get_put_same: "cfg_get (cfg_put c sec opt v) sec opt = Inr v"
  by (simp add: cfg_get_def cfg_put_def split: option.splits)

lemma cfg_get_put_other:
  "sec' \<noteq> sec \<or> py_lower opt' \<noteq> py_lower opt \<Longrightarrow>
   cfg_get (cfg_put c sec opt v) sec' opt' = cfg_get c sec' opt'"
  by (auto simp: cfg_get_def cfg_put_def split: option.splits)

lemma Rotor_saveCfg_same: "rotor_saved (Rotor_saveCfg rt c sec) sec rt"
  by (simp add: rotor_saved_def Rotor_saveCfg_def Let_def RotorDisc_saveCfg_def
      AlphabetRing_saveCfg_def cfg_get_put_same cfg_get_put_other option_names)

lemma Rotor_saveCfg_other:
  "sec' \<noteq> sec \<Longrightarrow> cfg_get (Rotor_saveCfg rt c sec) sec' opt = cfg_get c sec' opt"
  by (simp add: Rotor_saveCfg_def Let_def RotorDisc_saveCfg_def AlphabetRing_saveCfg_def
      cfg_get_put_other)

lemma rotorSectionName_inj: "rotorSectionName i = rotorSectionName j \<Longrightarrow> i = j"
proof -
  assume "rotorSectionName i = rotorSectionName j"
  then have "py_str (int i + 1) = py_str (int j + 1)"
    by (simp add: rotorSectionName_def)
  then have "int i + 1 = int j + 1" by (rule py_str_inj)
  then show "i = j" by simp
qed

lemma rotorSectionName_other:
  "rotorSectionName j \<noteq> ''Reflector''" "rotorSectionName j \<noteq> ''Plugboard''"
  by (simp_all add: rotorSectionName_def)

lemma rotors_saveCfg_other:
  "\<forall>j \<ge> i. sec \<noteq> rotorSectionName j \<Longrightarrow>
   cfg_get (rotors_saveCfg i rts c) sec opt = cfg_get c sec opt"
proof (induction rts arbitrary: i c)
  case Nil
  then show ?case by simp
next
  case (Cons rt rts)
  from Cons.prems have here: "sec \<noteq> rotorSectionName i"
    and later: "\<forall>j \<ge> i + 1. sec \<noteq> rotorSectionName j"
    by auto
  have "cfg_get (rotors_saveCfg (i + 1) rts (Rotor_saveCfg rt c (rotorSectionName i))) sec opt
        = cfg_get (Rotor_saveCfg rt c (rotorSectionName i)) sec opt"
    using later by (rule Cons.IH)
  also have "\<dots> = cfg_get c sec opt"
    using here by (rule Rotor_saveCfg_other)
  finally show ?case by simp
qed

lemma rotor_saved_cong:
  "(\<And>opt. cfg_get c' sec opt = cfg_get c sec opt) \<Longrightarrow> rotor_saved c sec rt \<Longrightarrow> rotor_saved c' sec rt"
  by (simp add: rotor_saved_def)

lemma rotors_saveCfg_entry:
  "j < length rts \<Longrightarrow> rotor_saved (rotors_saveCfg i rts c) (rotorSectionName (i + j)) (rts ! j)"
proof (induction rts arbitrary: i c j)
  case Nil
  then show ?case by simp
next
  case (Cons rt rts)
  let ?c1 = "Rotor_saveCfg rt c (rotorSectionName i)"
  show ?case
  proof (cases j)
    case 0
    have later: "\<forall>k \<ge> i + 1. rotorSectionName i \<noteq> rotorSectionName k"
      using rotorSectionName_inj by fastforce
    have "rotor_saved (rotors_saveCfg (i + 1) rts ?c1) (rotorSectionName i) rt"
      using rotors_saveCfg_other [OF later] Rotor_saveCfg_same by (rule rotor_saved_cong)
    with 0 show ?thesis by simp
  next
    case (Suc j')
    with Cons.prems have "j' < length rts" by simp
    then have "rotor_saved (rotors_saveCfg (i + 1) rts ?c1) (rotorSectionName (i + 1 + j')) (rts ! j')"
      by (rule Cons.IH)
    with Suc show ?thesis by simp
  qed
qed

lemma cfg_get_read:
  "cfg_get file sec opt = Inr v \<Longrightarrow> cfg_get (cfg_read c file) sec opt = Inr v"
  by (auto simp: cfg_get_def cfg_read_def map_add_def split: option.splits)

lemma cfg_get_section: "cfg_get c sec opt = Inr v \<Longrightarrow> c sec \<noteq> None"
  by (auto simp: cfg_get_def split: option.splits)

lemma rotor_saved_read: "rotor_saved file sec rt \<Longrightarrow> rotor_saved (cfg_read c file) sec rt"
  by (simp add: rotor_saved_def cfg_get_read)

lemma Rotor_loadCfg_saved:
  assumes int_str: "\<And>n. py_int (py_str n) = Inr n"
    and loads_dumps: "\<And>xs. json_loads (json_dumps xs) = Inr xs"
    and saved: "rotor_saved c sec rt"
  shows "Rotor_loadCfg py_int json_loads c sec rt0 = (Inr (), rt)"
proof -
  have "rt0\<lparr>ringstellung := ringstellung rt, rotor_disc := rotor_disc rt,
            alphabet_ring := \<lparr>notch = notch (alphabet_ring rt)\<rparr>\<rparr> = rt"
    by simp
  with saved show ?thesis
    by (simp add: rotor_saved_def Rotor_loadCfg_def RotorDisc_loadCfg_def AlphabetRing_loadCfg_def
        int_str loads_dumps Let_def)
qed

lemma rotors_loadCfg_saved:
  assumes int_str: "\<And>n. py_int (py_str n) = Inr n"
    and loads_dumps: "\<And>xs. json_loads (json_dumps xs) = Inr xs"
  shows "length rts0 = length rts \<Longrightarrow>
         \<forall>j < length rts. rotor_saved c (rotorSectionName (i + j)) (rts ! j) \<Longrightarrow>
         rotors_loadCfg py_int json_loads c i rts0 = (Inr (), rts)"
proof (induction rts0 arbitrary: i rts)
  case Nil
  then show ?case by simp
next
  case (Cons rt0 rts0)
  then obtain rt rts' where rts: "rts = rt # rts'"
    by (cases rts) auto
  from Cons.prems rts have len: "length rts0 = length rts'" by simp
  from Cons.prems(2) rts have first: "rotor_saved c (rotorSectionName i) rt"
    by fastforce
  have rest: "\<forall>j < length rts'. rotor_saved c (rotorSectionName (i + 1 + j)) (rts' ! j)"
  proof (intro allI impI)
    fix j assume "j < length rts'"
    then have "Suc j < length rts" by (simp add: rts)
    with Cons.prems(2) have "rotor_saved c (rotorSectionName (i + Suc j)) (rts ! Suc j)"
      by blast
    then show "rotor_saved c (rotorSectionName (i + 1 + j)) (rts' ! j)"
      by (simp add: rts)
  qed
  have "rotors_loadCfg py_int json_loads c (i + 1) rts0 = (Inr (), rts')"
    using len rest by (rule Cons.IH)
  then show ?case
    by (simp add: Rotor_loadCfg_saved [OF int_str loads_dumps first] rts)
qed

lemma RotorAssembly_saveCfg_reflector:
  "cfg_get (RotorAssembly_saveCfg s c) ''Reflector'' ''config'' = Inr (json_dumps (reflector s))"
proof -
  have other: "\<forall>j \<ge> 0. ''Reflector'' \<noteq> rotorSectionName j"
  proof (intro allI impI)
    fix j :: nat
    from rotorSectionName_other(1) [of j] show "''Reflector'' \<noteq> rotorSectionName j"
      by (rule not_sym)
  qed
  have "cfg_get (rotors_saveCfg 0 (rotors s) (Reflector_saveCfg (reflector s) c ''Reflector''))
          ''Reflector'' ''config''
        = cfg_get (Reflector_saveCfg (reflector s) c ''Reflector'') ''Reflector'' ''config''"
    using other by (rule rotors_saveCfg_other)
  also have "\<dots> = Inr (json_dumps (reflector s))"
    unfolding Reflector_saveCfg_def by (rule cfg_get_put_same)
  finally show ?thesis
    unfolding RotorAssembly_saveCfg_def .
qed

lemma RotorAssembly_saveCfg_rotor:
  assumes "j < length (rotors s)"
  shows "rotor_saved (RotorAssembly_saveCfg s c) (rotorSectionName j) (rotors s ! j)"
proof -
  have "rotor_saved (rotors_saveCfg 0 (rotors s) (Reflector_saveCfg (reflector s) c ''Reflector''))
          (rotorSectionName (0 + j)) (rotors s ! j)"
    using assms by (rule rotors_saveCfg_entry)
  then show ?thesis
    unfolding RotorAssembly_saveCfg_def by (simp only: add_0)
qed

lemma RotorAssembly_loadCfg_saved:
  assumes int_str: "\<And>n. py_int (py_str n) = Inr n"
    and loads_dumps: "\<And>xs. json_loads (json_dumps xs) = Inr xs"
    and refl: "cfg_get c ''Reflector'' ''config'' = Inr (json_dumps m)"
    and len: "length (rotors s0) = length rts"
    and rot: "\<forall>j < length rts. rotor_saved c (rotorSectionName j) (rts ! j)"
  shows "RotorAssembly_loadCfg py_int json_loads c s0 = (Inr (), s0\<lparr>reflector := m, rotors := rts\<rparr>)"
proof -
  from refl have sec: "c ''Reflector'' \<noteq> None" by (rule cfg_get_section)
  have r: "Reflector_loadCfg json_loads c ''Reflector'' = Inr m"
    by (simp add: Reflector_loadCfg_def refl loads_dumps)
  have "\<forall>j < length rts. rotor_saved c (rotorSectionName (0 + j)) (rts ! j)"
    using rot by simp
  with len have l: "rotors_loadCfg py_int json_loads c 0 (rotors s0) = (Inr (), rts)"
    by (rule rotors_loadCfg_saved [OF int_str loads_dumps])
  show ?thesis
    using sec by (simp add: RotorAssembly_loadCfg_def r l)
qed

lemma Enigma_saveCfg_saved:
  "Enigma_saveCfg path fs e = (e\<lparr>config := saved_cfg e\<rparr>, fs(path \<mapsto> saved_cfg e))"
  unfolding Enigma_saveCfg_def saved_cfg_def Let_def by (rule refl)

lemma saved_cfg_keep:
  assumes "sec \<noteq> ''Plugboard''"
  shows "cfg_get (saved_cfg e) sec opt = cfg_get (RotorAssembly_saveCfg (rotor_asm e) (config e)) sec opt"
  unfolding saved_cfg_def Plugboard_saveCfg_def
  using assms by (intro cfg_get_put_other disjI1)

lemma saved_cfg_reflector:
  "cfg_get (saved_cfg e) ''Reflector'' ''config'' = Inr (json_dumps (reflector (rotor_asm e)))"
proof -
  have "''Reflector'' \<noteq> ''Plugboard''" by simp
  then have "cfg_get (saved_cfg e) ''Reflector'' ''config''
             = cfg_get (RotorAssembly_saveCfg (rotor_asm e) (config e)) ''Reflector'' ''config''"
    by (rule saved_cfg_keep)
  also have "\<dots> = Inr (json_dumps (reflector (rotor_asm e)))"
    by (rule RotorAssembly_saveCfg_reflector)
  finally show ?thesis .
qed

lemma saved_cfg_rotor:
  assumes j: "j < length (rotors (rotor_asm e))"
  shows "rotor_saved (saved_cfg e) (rotorSectionName j) (rotors (rotor_asm e) ! j)"
proof -
  have "cfg_get (saved_cfg e) (rotorSectionName j) opt
        = cfg_get (RotorAssembly_saveCfg (rotor_asm e) (config e)) (rotorSectionName j) opt" for opt
    using rotorSectionName_other(2) by (rule saved_cfg_keep)
  then show ?thesis
    using RotorAssembly_saveCfg_rotor [OF j] by (rule rotor_saved_cong)
qed

lemma saved_cfg_plugboard:
  "cfg_get (saved_cfg e) ''Plugboard'' ''settings'' = Inr (plug_str (plugboard e))"
  unfolding saved_cfg_def Plugboard_saveCfg_def by (rule cfg_get_put_same)

lemma Enigma_loadCfg_absent:
  "fs path = None \<Longrightarrow> Enigma_loadCfg py_int json_loads path fs e = (Inr (), e)"
  by (simp add: Enigma_loadCfg_def)

lemma Enigma_loadCfg_present:
  assumes present: "fs path = Some file"
    and la: "RotorAssembly_loadCfg py_int json_loads (cfg_read (config e) file) (rotor_asm e) = (Inr (), asm')"
  shows "Enigma_loadCfg py_int json_loads path fs e
         = (Inr (), e\<lparr>config := cfg_read (config e) file, rotor_asm := asm'\<rparr>)"
  using present la by (simp add: Enigma_loadCfg_def Let_def)

section \<open>Disc rotation\<close>

text \<open>
  C6 as the spec states it: after one rotation the element that was at index 0 is at the
  end, and \<open>get(i)\<close> returns what was at index \<open>(i+1) mod A\<close>. On the disc
  \<open>0, 1, \<dots>, 25\<close> the rotation leaves \<open>25, 0, 1, \<dots>, 24\<close>: the last element is 24,
  not 0, and \<open>get(3)\<close> is 2, not 4.
\<close>

theorem C6_left_shift_counterexample:
  "\<not> (last (RotorDisc_rotate (ALPHABET_UNIVERSE 26)) = hd (ALPHABET_UNIVERSE 26)
      \<and> RotorDisc_get 26 (RotorDisc_rotate (ALPHABET_UNIVERSE 26)) 3
          = RotorDisc_get 26 (ALPHABET_UNIVERSE 26) ((3 + 1) mod 26))"
  by (simp add: RotorDisc_rotate_def RotorDisc_get_def ALPHABET_UNIVERSE_def py_index_def
      upto_rec1)

text \<open>
  C6, amended: rotation is a cyclic shift by one position to the right. On a disc of
  \<open>A\<close> elements the element that was last is at index 0 after one rotation, and for
  every \<open>i\<close> in \<open>[0, A)\<close>, \<open>get(i)\<close> returns the element that was at index
  \<open>(i - 1) mod A\<close>.
\<close>

theorem C6_rotate_right_shift:
  assumes "length m = nat A" and "0 \<le> i" and "i < A"
  shows "hd (RotorDisc_rotate m) = last m
       \<and> length (RotorDisc_rotate m) = length m
       \<and> RotorDisc_get A (RotorDisc_rotate m) i = RotorDisc_get A m ((i - 1) mod A)"
proof -
  from assms have A: "0 < A" and ne: "m \<noteq> []" by auto
  have h: "hd (RotorDisc_rotate m) = last m"
    using ne by (simp add: RotorDisc_rotate_def)
  have j: "0 \<le> (i - 1) mod A" "(i - 1) mod A < A"
    using A by simp_all
  have lhs: "RotorDisc_get A (RotorDisc_rotate m) i = Inr (RotorDisc_rotate m ! nat i)"
    using assms by (simp add: RotorDisc_get_in_range length_RotorDisc_rotate)
  have rhs: "RotorDisc_get A m ((i - 1) mod A) = Inr (m ! nat ((i - 1) mod A))"
    using j assms by (simp add: RotorDisc_get_in_range)
  have nth: "RotorDisc_rotate m ! nat i = m ! nat ((i - 1) mod A)"
  proof (cases "i = 0")
    case True
    have m1: "(- 1) mod A = A - 1"
      using A by (simp add: zmod_minus1)
    have "RotorDisc_rotate m ! 0 = last m"
      using ne by (simp add: RotorDisc_rotate_def)
    moreover have "last m = m ! (length m - 1)"
      using ne by (rule last_conv_nth)
    moreover have "nat (A - 1) = length m - 1"
      using assms(1) A by simp
    ultimately show ?thesis
      using True m1 by simp
  next
    case False
    with assms have pos: "0 < i" by simp
    then have md: "(i - 1) mod A = i - 1"
      using assms(3) by simp
    have lt: "nat i < length m"
      using assms by simp
    have "RotorDisc_rotate m ! nat i = m ! (nat i - 1)"
      using lt pos by (simp add: RotorDisc_rotate_nth)
    moreover have "nat (i - 1) = nat i - 1"
      using pos by simp
    ultimately show ?thesis
      using md by simp
  qed
  show ?thesis using h lhs rhs nth by (simp add: length_RotorDisc_rotate)
qed

theorem C6_rotate_right_shift_witness:
  "length [3, 0, 2, 1 :: int] = nat 4 \<and> (0::int) \<le> 2 \<and> (2::int) < 4
   \<and> hd (RotorDisc_rotate [3, 0, 2, 1]) = last [3, 0, 2, 1 :: int]
   \<and> RotorDisc_get 4 (RotorDisc_rotate [3, 0, 2, 1]) 2 = Inr 0
   \<and> RotorDisc_get 4 [3, 0, 2, 1] ((2 - 1) mod 4) = Inr 0"
  using C6_rotate_right_shift [of "[3, 0, 2, 1]" 4 2]
  by (simp add: RotorDisc_rotate_def RotorDisc_get_def ALPHABET_UNIVERSE_def py_index_def)

section \<open>Reflector\<close>

text \<open>
  C2: a fresh reflector is an involution without fixed points. The constructor only
  shuffles the universe, so \<open>shuffled_reflector\<close> is a reflector it can build: there
  \<open>get(get(0)) = get(1) = 2\<close>, not 0, and \<open>get(3) = 3\<close>. Decoding needs the involution:
  on \<open>identity_Enigma\<close>, built by the constructors with identity discs around this
  reflector, 2 is encoded to 1 and 1, from the same position, to 0.
\<close>

theorem C2_shuffled_reflector_not_involution:
  "Reflector_init_ok 26 shuffled_reflector
   \<and> Reflector_get 26 (Reflector_init shuffled_reflector) 0 = Inr 1
   \<and> Reflector_get 26 (Reflector_init shuffled_reflector) 1 = Inr 2
   \<and> Reflector_get 26 (Reflector_init shuffled_reflector) 3 = Inr 3
   \<and> Enigma_init 0 26 3 identity_draws shuffled_reflector 1 [ALPHABET_UNIVERSE 26] = Inr identity_Enigma
   \<and> RotorAssembly_init_ok 26 3 identity_draws shuffled_reflector
   \<and> fst (Enigma_get 26 2 identity_Enigma) = Inr 1
   \<and> fst (Enigma_get 26 1 identity_Enigma) = Inr 0"
proof -
  have pb: "Plugboard_init 26 1 [ALPHABET_UNIVERSE 26]
            = Inr \<lparr>plug_mapping = [1, 0] @ [2..25], plug_str = ''ab''\<rparr>"
    by code_simp
  have e: "Enigma_init 0 26 3 identity_draws shuffled_reflector 1 [ALPHABET_UNIVERSE 26] = Inr identity_Enigma"
    by (simp add: Enigma_init_def pb Let_def identity_Enigma_def)
  have r: "Reflector_init_ok 26 shuffled_reflector"
    "Reflector_get 26 (Reflector_init shuffled_reflector) 0 = Inr 1"
    "Reflector_get 26 (Reflector_init shuffled_reflector) 1 = Inr 2"
    "Reflector_get 26 (Reflector_init shuffled_reflector) 3 = Inr 3"
    by code_simp+
  have m: "RotorAssembly_init_ok 26 3 identity_draws shuffled_reflector"
    "fst (Enigma_get 26 2 identity_Enigma) = Inr 1"
    "fst (Enigma_get 26 1 identity_Enigma) = Inr 0"
    by code_simp+
  from e r m show ?thesis by (intro conjI)
qed

text \<open>
  What the constructor does give: a freshly constructed reflector is a permutation of
  \<open>[0, A)\<close>. For every index \<open>i\<close> in \<open>[0, A)\<close>, \<open>get(i)\<close> returns a value of
  \<open>[0, A)\<close> that no other index returns, and \<open>i\<close> itself is returned for some index.
\<close>

lemma Reflector_init_permutation:
  assumes ok: "Reflector_init_ok A sh" and i0: "0 \<le> i" and iA: "i < A"
  shows "(\<exists>v. Reflector_get A (Reflector_init sh) i = Inr v \<and> 0 \<le> v \<and> v < A
            \<and> (\<forall>j. 0 \<le> j \<and> j < A \<and> Reflector_get A (Reflector_init sh) j = Inr v \<longrightarrow> j = i))
       \<and> (\<exists>j. 0 \<le> j \<and> j < A \<and> Reflector_get A (Reflector_init sh) j = Inr i)"
proof -
  from ok have sh: "shuffle_ok (ALPHABET_UNIVERSE A) sh"
    by (simp add: Reflector_init_ok_def)
  note len = shuffle_universe(1) [OF sh] and dist = shuffle_universe(2) [OF sh]
    and st = shuffle_universe(3) [OF sh]
  have get: "Reflector_get A (Reflector_init sh) j = Inr (sh ! nat j)" if "0 \<le> j" "j < A" for j
    using that len by (simp add: Reflector_init_def Reflector_get_in_range)
  have lt: "nat i < length sh" using i0 iA len by simp
  then have "sh ! nat i \<in> set sh" by simp
  with st have rng: "0 \<le> sh ! nat i" "sh ! nat i < A" by auto
  have inj: "j = i" if "0 \<le> j" "j < A" "Reflector_get A (Reflector_init sh) j = Inr (sh ! nat i)" for j
  proof -
    from that have "sh ! nat j = sh ! nat i" by (simp add: get)
    moreover have "nat j < length sh" using that len by simp
    ultimately have "nat j = nat i" using dist lt by (simp add: nth_eq_iff_index_eq)
    with that i0 show ?thesis by simp
  qed
  have "i \<in> set sh" using st i0 iA by simp
  then obtain k where k: "k < length sh" "sh ! k = i"
    by (auto simp: in_set_conv_nth)
  then have "0 \<le> int k \<and> int k < A \<and> Reflector_get A (Reflector_init sh) (int k) = Inr i"
    using len by (simp add: get)
  then have surj: "\<exists>j. 0 \<le> j \<and> j < A \<and> Reflector_get A (Reflector_init sh) j = Inr i" ..
  have all: "\<forall>j. 0 \<le> j \<and> j < A \<and> Reflector_get A (Reflector_init sh) j = Inr (sh ! nat i) \<longrightarrow> j = i"
    using inj by blast
  have "Reflector_get A (Reflector_init sh) i = Inr (sh ! nat i) \<and> 0 \<le> sh ! nat i \<and> sh ! nat i < A
      \<and> (\<forall>j. 0 \<le> j \<and> j < A \<and> Reflector_get A (Reflector_init sh) j = Inr (sh ! nat i) \<longrightarrow> j = i)"
    using get [OF i0 iA] rng all by (intro conjI)
  then have "\<exists>v. Reflector_get A (Reflector_init sh) i = Inr v \<and> 0 \<le> v \<and> v < A
            \<and> (\<forall>j. 0 \<le> j \<and> j < A \<and> Reflector_get A (Reflector_init sh) j = Inr v \<longrightarrow> j = i)" ..
  then show ?thesis using surj by (rule conjI)
qed

lemma Reflector_init_permutation_example:
  "Reflector_init_ok 26 ([1, 2, 0] @ [3..25]) \<and> (0::int) \<le> 1 \<and> (1::int) < 26
   \<and> Reflector_get 26 (Reflector_init ([1, 2, 0] @ [3..25])) 1 = Inr 2
   \<and> Reflector_get 26 (Reflector_init ([1, 2, 0] @ [3..25])) 0 = Inr 1"
proof -
  have ok: "Reflector_init_ok 26 ([1, 2, 0] @ [3..25])"
    by code_simp
  have g: "Reflector_get 26 (Reflector_init ([1, 2, 0] @ [3..25])) 1 = Inr 2"
    "Reflector_get 26 (Reflector_init ([1, 2, 0] @ [3..25])) 0 = Inr 1"
    by code_simp+
  from Reflector_init_permutation [OF ok, of 1] ok g show ?thesis
    by simp
qed

section \<open>Random notch and ring offset\<close>

text \<open>
  C7: the notch and the default ring offset are meant to lie in \<open>[0, A)\<close>, but
  \<^verbatim>\<open>randint(0, ALPHABET_SIZE)\<close> includes its upper end. For \<open>A = 26\<close> the draw 26 is one
  \<^verbatim>\<open>randomNumber()\<close> can return, and the ring and the rotor built from it hold 26, which
  is not an alphabet index.
\<close>

theorem C7_randomNumber_reaches_alphabet_size:
  "randomNumber_ok 26 26
   \<and> notch (AlphabetRing_init 26) = 26
   \<and> notch (AlphabetRing_init 26) \<notin> set (ALPHABET_UNIVERSE 26)
   \<and> ringstellung (Rotor_init 26 None (ALPHABET_UNIVERSE 26) 0) = 26
   \<and> ringstellung (Rotor_init 26 None (ALPHABET_UNIVERSE 26) 0) \<notin> set (ALPHABET_UNIVERSE 26)"
  by (simp add: randomNumber_ok_def randint_ok_def AlphabetRing_init_def Rotor_init_def
      in_ALPHABET_UNIVERSE)

section \<open>Stepping\<close>

text \<open>
  C4: a rotor that advances turns its disc once, and only the rotors before the last have
  a counter. The code reads \<open>rotation_count[index]\<close> for every rotor it advances, the
  last included, where the list has no entry. In \<open>jammed_asm\<close> (counters 0 and 0,
  notches 5, 0, 7) rotor 0 and rotor 2 are flagged: rotor 0 advances, then the step
  raises \<^verbatim>\<open>IndexError\<close> and the disc of rotor 2 has not turned.
\<close>

theorem C4_last_rotor_advance_raises:
  "RotorAssembly_init_ok 26 3 jammed_draws example_reflector
   \<and> PawlAndRatchetMechanism_rotate 26 jammed_asm
       = (Inl IndexError,
          jammed_asm\<lparr>rotors := (rotors jammed_asm)[0 := Rotor_rotate (rotors jammed_asm ! 0)],
                     rotation_count := [1, 0]\<rparr>)"
  by code_simp

section \<open>Round trip\<close>

text \<open>
  C1: encoding the output again from the same rotor position should give the input back.
  \<open>example_Enigma\<close> has a reflector that is an involution without fixed points and a
  plugboard that swaps \<open>a\<close> and \<open>b\<close>; its first disc maps \<open>i\<close> to \<open>i + 1\<close>. The
  return path uses each disc in the same direction as the forward path, so 5 is encoded
  to 8, and 8, from the same starting position, to 9.
\<close>

theorem C1_round_trip_fails:
  "RotorAssembly_init_ok 26 3 example_draws example_reflector
   \<and> fst (Enigma_get 26 5 example_Enigma) = Inr 8
   \<and> fst (Enigma_get 26 8 example_Enigma) = Inr 9"
  by code_simp

section \<open>Inputs outside the alphabet\<close>

text \<open>
  C3 as the spec states it: every \<open>get\<close> fails on an input outside \<open>[0, A)\<close>, and the
  engine then fails before any state changes. On \<open>example_Enigma\<close> the input \<open>-1\<close>
  passes \<^verbatim>\<open>Rotor.get\<close> (which reduces modulo \<open>A\<close>) and the engine returns 2 for it,
  with the first counter stepped from 0 to 1.
\<close>

theorem C3_negative_input_counterexample:
  "Rotor_get 26 (rotors example_asm ! 0) (- 1) = Inr 0
   \<and> fst (Enigma_get 26 (- 1) example_Enigma) = Inr 2
   \<and> rotation_count (rotor_asm example_Enigma) = [0, 0]
   \<and> rotation_count (rotor_asm (snd (Enigma_get 26 (- 1) example_Enigma))) = [1, 0]"
  by code_simp

text \<open>
  C3, amended: for every input outside \<open>[0, A)\<close>, \<^verbatim>\<open>Disc.get\<close> and \<^verbatim>\<open>Reflector.get\<close>
  fail at once with an assertion error. \<^verbatim>\<open>Rotor.get\<close> does not reject any integer: it
  reduces the input plus the ring offset modulo \<open>A\<close> and returns the disc's entry there.
  \<^verbatim>\<open>Plugboard.get\<close> and the engine's encode call fail with \<^verbatim>\<open>IndexError\<close> for every input
  \<open>\<ge> A\<close> or \<open>< -A\<close>, the engine before any state changes: no disc rotates and no
  counter changes.
\<close>

theorem C3_out_of_range_inputs:
  assumes A: "0 < A" and out: "num < 0 \<or> A \<le> num"
    and pm: "length (plug_mapping (plugboard e)) = nat A"
    and disc: "length (rotor_disc rt) = nat A"
  shows "RotorDisc_get A m num = Inl AssertionError
       \<and> Reflector_get A m num = Inl AssertionError
       \<and> Rotor_get A rt num = Inr (rotor_disc rt ! nat ((num + ringstellung rt) mod A))
       \<and> (num < - A \<or> A \<le> num \<longrightarrow>
            Plugboard_get (plugboard e) num = Inl IndexError
            \<and> Enigma_get A num e = (Inl IndexError, e))"
proof -
  from out have notin: "num \<notin> set (ALPHABET_UNIVERSE A)"
    by (auto simp: in_ALPHABET_UNIVERSE)
  have d: "RotorDisc_get A m num = Inl AssertionError"
    using notin by (simp add: RotorDisc_get_def)
  have r: "Reflector_get A m num = Inl AssertionError"
    using notin by (simp add: Reflector_get_def)
  have rg: "Rotor_get A rt num = Inr (rotor_disc rt ! nat ((num + ringstellung rt) mod A))"
    using Rotor_get_total [OF A disc] by (simp add: spec_rotor_stage_def)
  have p: "Plugboard_get (plugboard e) num = Inl IndexError" if "num < - A \<or> A \<le> num"
    using that pm A by (auto simp: Plugboard_get_def py_index_def)
  have e: "Enigma_get A num e = (Inl IndexError, e)" if "num < - A \<or> A \<le> num"
    using p [OF that] by (simp add: Enigma_get_def)
  from d r rg p e show ?thesis by blast
qed

theorem C3_out_of_range_inputs_witness:
  "(0::int) < 26 \<and> ((26::int) < 0 \<or> (26::int) \<le> 26)
   \<and> length (plug_mapping (plugboard example_Enigma)) = nat 26
   \<and> length (rotor_disc (rotors example_asm ! 0)) = nat 26
   \<and> RotorDisc_get 26 example_reflector 26 = Inl AssertionError
   \<and> Reflector_get 26 example_reflector 26 = Inl AssertionError
   \<and> Rotor_get 26 (rotors example_asm ! 0) 26 = Inr 1
   \<and> Plugboard_get (plugboard example_Enigma) 26 = Inl IndexError
   \<and> fst (Enigma_get 26 26 example_Enigma) = Inl IndexError
   \<and> rotor_asm (snd (Enigma_get 26 26 example_Enigma)) = rotor_asm example_Enigma"
proof -
  have pm: "length (plug_mapping (plugboard example_Enigma)) = nat 26"
    by code_simp
  have disc: "length (rotor_disc (rotors example_asm ! 0)) = nat 26"
    by code_simp
  have v: "rotor_disc (rotors example_asm ! 0) ! nat ((26 + ringstellung (rotors example_asm ! 0)) mod 26) = 1"
    by code_simp
  from C3_out_of_range_inputs [of 26 26 example_Enigma "rotors example_asm ! 0" example_reflector]
    pm disc v show ?thesis
    by simp
qed

section \<open>Signal path and stepping order\<close>

text \<open>
  C5: for every valid input, one encode call runs the whole path (plugboard, rotors,
  reflector, rotors in reverse, plugboard) and steps once after the substitution, so it
  returns a value fixed by the positions before the step. \<open>jammed_Enigma\<close> is a
  well-formed machine built by the constructors; its first keystroke flags the last
  rotor, the step raises \<^verbatim>\<open>IndexError\<close>, and the encode call of the valid input 5
  returns no value: the exception leaves \<^verbatim>\<open>RotorAssembly.get\<close> before its
  \<^verbatim>\<open>return\<close> and the second plugboard lookup never runs. Rotor 0 has already advanced.
\<close>

theorem C5_encode_raises_in_step:
  "Enigma_init 0 26 3 jammed_draws example_reflector 1 [ALPHABET_UNIVERSE 26] = Inr jammed_Enigma
   \<and> RotorAssembly_init_ok 26 3 jammed_draws example_reflector
   \<and> Enigma_ok 26 jammed_Enigma
   \<and> fst (Enigma_get 26 5 jammed_Enigma) = Inl IndexError
   \<and> rotation_count (rotor_asm jammed_Enigma) = [0, 0]
   \<and> rotation_count (rotor_asm (snd (Enigma_get 26 5 jammed_Enigma))) = [1, 0]"
proof -
  have pb: "Plugboard_init 26 1 [ALPHABET_UNIVERSE 26]
            = Inr \<lparr>plug_mapping = [1, 0] @ [2..25], plug_str = ''ab''\<rparr>"
    by code_simp
  have e: "Enigma_init 0 26 3 jammed_draws example_reflector 1 [ALPHABET_UNIVERSE 26] = Inr jammed_Enigma"
    by (simp add: Enigma_init_def pb Let_def jammed_Enigma_def jammed_asm_def)
  have m: "RotorAssembly_init_ok 26 3 jammed_draws example_reflector"
    "Enigma_ok 26 jammed_Enigma"
    "fst (Enigma_get 26 5 jammed_Enigma) = Inl IndexError"
    "rotation_count (rotor_asm jammed_Enigma) = [0, 0]"
    "rotation_count (rotor_asm (snd (Enigma_get 26 5 jammed_Enigma))) = [1, 0]"
    by code_simp+
  from e m show ?thesis by (intro conjI)
qed

text \<open>
  On a well-formed machine and a valid input \<open>i\<close> the call is one call of the stepping
  controller on the machine as it was. When that call returns, encode returns
  \<open>spec_signal_path\<close> of the machine as it was before the call and leaves the stepped
  state; when it raises, encode raises with the state the step left.
\<close>

lemma Enigma_get_signal_path:
  assumes ok: "Enigma_ok A e" and i: "0 \<le> i" "i < A"
  shows "Enigma_get A i e =
           (case PawlAndRatchetMechanism_rotate A (rotor_asm e) of
              (Inl err, asm') \<Rightarrow> (Inl err, e\<lparr>rotor_asm := asm'\<rparr>)
            | (Inr u, asm') \<Rightarrow> (Inr (spec_signal_path A e i), e\<lparr>rotor_asm := asm'\<rparr>))"
proof -
  let ?pm = "plug_mapping (plugboard e)"
  let ?s = "rotor_asm e"
  from ok have A: "0 < A" and pm: "table_ok A ?pm" and m: "table_ok A (reflector ?s)"
    and rs: "list_all (\<lambda>rt. table_ok A (rotor_disc rt)) (rotors ?s)"
    by (simp_all add: Enigma_ok_def)
  from pm have len: "length ?pm = nat A" by (simp add: table_ok_def)
  define n1 where "n1 = ?pm ! nat i"
  have p1: "Plugboard_get (plugboard e) i = Inr n1"
    using i len by (simp add: Plugboard_get_def py_index_def n1_def)
  have n1: "0 \<le> n1" "n1 < A"
    using table_ok_nth [OF pm i] by (simp_all add: n1_def)
  define n2 where "n2 = fold (spec_rotor_stage A) (rev (rotors ?s))
                        (reflector ?s ! nat (fold (spec_rotor_stage A) (rotors ?s) n1))"
  have chain: "RotorAssembly_get A n1 ?s =
           (case PawlAndRatchetMechanism_rotate A ?s of
              (Inl e, s') \<Rightarrow> (Inl e, s')
            | (Inr u, s') \<Rightarrow> (Inr n2, s'))"
    unfolding n2_def using A m rs n1 by (rule RotorAssembly_get_ok)
  let ?objs = "map RotorStage (rotors ?s) @ [ReflectorStage (reflector ?s)] @ map RotorStage (rev (rotors ?s))"
  have "0 \<le> fold (stage_fun A) ?objs n1 \<and> fold (stage_fun A) ?objs n1 < A"
    using A obj_list_ok [OF m rs] n1 by (rule fold_stage_fun_range)
  then have n2: "0 \<le> n2" "n2 < A"
    by (simp_all only: fold_obj_list n2_def)
  have p2: "Plugboard_get (plugboard e) n2 = Inr (?pm ! nat n2)"
    using n2 len by (simp add: Plugboard_get_def py_index_def)
  have sp: "spec_signal_path A e i = ?pm ! nat n2"
    by (simp add: spec_signal_path_def Let_def n2_def n1_def)
  obtain r asm' where step: "PawlAndRatchetMechanism_rotate A ?s = (r, asm')"
    by (cases "PawlAndRatchetMechanism_rotate A ?s")
  show ?thesis
  proof (cases r)
    case (Inl err)
    with step chain p1 show ?thesis
      by (simp add: Enigma_get_def)
  next
    case (Inr u)
    with step chain p1 p2 sp show ?thesis
      by (simp add: Enigma_get_def)
  qed
qed

lemma Enigma_get_signal_path_example:
  "Enigma_ok 26 example_Enigma \<and> (0::int) \<le> 5 \<and> (5::int) < 26
   \<and> spec_signal_path 26 example_Enigma 5 = 8
   \<and> fst (PawlAndRatchetMechanism_rotate 26 (rotor_asm example_Enigma)) = Inr ()
   \<and> fst (Enigma_get 26 5 example_Enigma) = Inr 8
   \<and> rotor_asm (snd (Enigma_get 26 5 example_Enigma))
       = snd (PawlAndRatchetMechanism_rotate 26 (rotor_asm example_Enigma))"
proof -
  have ok: "Enigma_ok 26 example_Enigma"
    by code_simp
  have sp: "spec_signal_path 26 example_Enigma 5 = 8"
    by code_simp
  have st: "fst (PawlAndRatchetMechanism_rotate 26 (rotor_asm example_Enigma)) = Inr ()"
    by code_simp
  obtain r asm' where step: "PawlAndRatchetMechanism_rotate 26 (rotor_asm example_Enigma) = (r, asm')"
    by (cases "PawlAndRatchetMechanism_rotate 26 (rotor_asm example_Enigma)")
  with st have r: "r = Inr ()" by simp
  from Enigma_get_signal_path [OF ok, of 5] step r sp ok st show ?thesis
    by simp
qed

section \<open>Default ring offset\<close>

text \<open>
  C10: the default value of \<open>ringstellung\<close> is fixed when the class is defined, so every
  rotor built without an explicit ring offset holds that one value: all rotors of a
  \<^verbatim>\<open>RotorAssembly\<close>, and of every engine built in the same process, whatever was
  drawn for their discs and notches.
\<close>

theorem C10_default_ring_offset_shared:
  "(\<forall>rt \<in> set (rotors (RotorAssembly_init dflt N draws refl_sh)). ringstellung rt = dflt)
   \<and> (\<forall>e. Enigma_init dflt A N draws refl_sh numPairs shs = Inr e \<longrightarrow>
          (\<forall>rt \<in> set (rotors (rotor_asm e)). ringstellung rt = dflt))"
proof -
  have asm: "\<forall>rt \<in> set (rotors (RotorAssembly_init dflt N draws refl_sh)). ringstellung rt = dflt"
    by (auto simp: RotorAssembly_init_def Let_def Rotor_init_def)
  have "rotor_asm e = RotorAssembly_init dflt N draws refl_sh"
    if "Enigma_init dflt A N draws refl_sh numPairs shs = Inr e" for e
    using that by (auto simp: Enigma_init_def Let_def split: sum.splits)
  with asm show ?thesis by simp
qed

theorem C10_default_ring_offset_shared_witness:
  "Enigma_init 7 26 3 example_draws example_reflector 1 [ALPHABET_UNIVERSE 26]
     = Inr (example_Enigma\<lparr>rotor_asm := RotorAssembly_init 7 3 example_draws example_reflector\<rparr>)
   \<and> length (rotors (RotorAssembly_init 7 3 example_draws example_reflector)) = 3
   \<and> ringstellung (rotors (RotorAssembly_init 7 3 example_draws example_reflector) ! 0) = 7
   \<and> ringstellung (rotors (RotorAssembly_init 7 3 example_draws example_reflector) ! 1) = 7
   \<and> ringstellung (rotors (RotorAssembly_init 7 3 example_draws example_reflector) ! 2) = 7"
proof -
  let ?asm = "RotorAssembly_init 7 3 example_draws example_reflector"
  have pb: "Plugboard_init 26 1 [ALPHABET_UNIVERSE 26] = Inr (plugboard example_Enigma)"
    by code_simp
  have e: "Enigma_init 7 26 3 example_draws example_reflector 1 [ALPHABET_UNIVERSE 26]
     = Inr (example_Enigma\<lparr>rotor_asm := ?asm\<rparr>)"
    by (simp add: Enigma_init_def pb Let_def example_Enigma_def)
  have len: "length (rotors ?asm) = 3"
    by code_simp
  from C10_default_ring_offset_shared [of 7 3 example_draws example_reflector 26 1 "[ALPHABET_UNIVERSE 26]"] e
  have "\<forall>rt \<in> set (rotors (rotor_asm (example_Enigma\<lparr>rotor_asm := ?asm\<rparr>))). ringstellung rt = 7"
    by blast
  then have all: "\<forall>rt \<in> set (rotors ?asm). ringstellung rt = 7"
    by simp
  have "rotors ?asm ! k \<in> set (rotors ?asm)" if "k < 3" for k
    using that len by simp
  with all have "ringstellung (rotors ?asm ! 0) = 7" "ringstellung (rotors ?asm ! 1) = 7"
    "ringstellung (rotors ?asm ! 2) = 7"
    by simp_all
  with e len show ?thesis by simp
qed

section \<open>Plugboard\<close>

text \<open>
  C9: for an alphabet of at most 26 letters with enough letters for the pairs drawn
  (\<open>2 * numPairs \<le> A\<close>, always so for \<open>A\<close> from 20 on), the constructor returns a
  plugboard. It is built from the \<open>k\<close> popped pairs, \<open>k\<close> in \<open>[1, 10]\<close>; the two
  letters of a pair differ and map to each other; no letter is in two pairs; for every
  \<open>i\<close> in \<open>[0, A)\<close>, \<open>get(get(i)) = i\<close>; and a letter in no pair maps to itself.
\<close>

theorem C9_plugboard_involution_from_pairs:
  assumes ok: "getRandomPlugboardString_ok A numPairs shs" and A26: "A \<le> 26"
    and enough: "2 * numPairs \<le> A" and i: "0 \<le> i" "i < A"
  shows "\<exists>pb. Plugboard_init A numPairs shs = Inr pb
      \<and> 1 \<le> length (popped_pairs shs) \<and> length (popped_pairs shs) \<le> 10
      \<and> (\<forall>(a, b) \<in> set (popped_pairs shs).
            a \<noteq> b \<and> 0 \<le> a \<and> a < A \<and> 0 \<le> b \<and> b < A
            \<and> Plugboard_get pb a = Inr b \<and> Plugboard_get pb b = Inr a)
      \<and> distinct (pair_letters (popped_pairs shs))
      \<and> (\<exists>v. Plugboard_get pb i = Inr v \<and> 0 \<le> v \<and> v < A \<and> Plugboard_get pb v = Inr i)
      \<and> (i \<notin> set (pair_letters (popped_pairs shs)) \<longrightarrow> Plugboard_get pb i = Inr i)"
proof -
  let ?U = "ALPHABET_UNIVERSE A"
  let ?ps = "popped_pairs shs"
  let ?r = "fold connect_step ?ps ?U"
  let ?s = "join_space (map key_of ?ps)"
  let ?pb = "\<lparr>plug_mapping = ?r, plug_str = ?s\<rparr>"
  from ok have np: "1 \<le> numPairs" "numPairs \<le> 10" and len: "length shs = nat numPairs"
    and sh: "shuffles_ok ?U shs"
    by (simp_all add: getRandomPlugboardString_ok_def randint_ok_def)
  have lps: "length ?ps = nat numPairs"
    using len by (simp add: popped_pairs_def)
  have dU: "distinct ?U" and sU: "set ?U \<subseteq> {0..<A}" and lU: "length ?U = nat A"
    by (auto simp: ALPHABET_UNIVERSE_def)
  have l2: "2 * length shs \<le> length ?U"
    using len lU enough np by simp
  note inv = shuffles_ok_pairs [OF sh dU sU l2]
  from inv have allsh: "\<forall>sh \<in> set shs. 2 \<le> length sh \<and> pair_ok A (sh ! 0, sh ! 1)"
    and dist: "distinct (pair_letters ?ps)"
    by simp_all
  from allsh have pok: "\<forall>p \<in> set ?ps. pair_ok A p"
    by (auto simp: popped_pairs_def)
  have loop: "pair_loop shs [] = Inr (map key_of ?ps)"
    using pair_loop_keys [OF A26 allsh, of "[]"] by simp
  have str: "getRandomPlugboardString numPairs shs = Inr ?s"
    using loop len by (simp add: getRandomPlugboardString_def)
  have ne: "map key_of ?ps \<noteq> []"
    using lps np by auto
  have nosp: "\<forall>k \<in> set (map key_of ?ps). CHR '' '' \<notin> set k"
  proof
    fix k assume "k \<in> set (map key_of ?ps)"
    then obtain p where p: "p \<in> set ?ps" and k: "k = key_of p" by auto
    obtain a b where pab: "p = (a, b)" by (cases p)
    from pok p pab A26 have "0 \<le> a" "a < 26" "0 \<le> b" "b < 26"
      by (auto simp: pair_ok_def)
    then have "CHR '' '' \<notin> set (key_of (a, b))" by (rule key_of_no_space)
    with k pab show "CHR '' '' \<notin> set k" by simp
  qed
  have spl: "split_space ?s = map key_of ?ps"
    using ne nosp by (rule split_join_space)
  have su: "setup_loop A (map key_of ?ps) ?U = Inr ?r"
    using A26 pok lU by (rule setup_loop_keys)
  have init: "Plugboard_init A numPairs shs = Inr ?pb"
    by (simp add: Plugboard_init_def str Plugboard_setup_def spl su)
  note fc = fold_connect_step [OF dist pok lU]
  from fc have lr: "length ?r = nat A" by simp
  have get: "Plugboard_get ?pb x = Inr (?r ! nat x)" if "0 \<le> x" "x < A" for x
    using that lr by (simp add: Plugboard_get_def py_index_def)
  have pairs: "a \<noteq> b \<and> 0 \<le> a \<and> a < A \<and> 0 \<le> b \<and> b < A
               \<and> Plugboard_get ?pb a = Inr b \<and> Plugboard_get ?pb b = Inr a"
    if "(a, b) \<in> set ?ps" for a b
  proof -
    from pok that have p: "pair_ok A (a, b)" by blast
    then have r: "a \<noteq> b" "0 \<le> a" "a < A" "0 \<le> b" "b < A"
      by (simp_all add: pair_ok_def)
    from fc that have "?r ! nat a = b" "?r ! nat b = a" by fastforce+
    with r show ?thesis by (simp add: get)
  qed
  have unpaired: "Plugboard_get ?pb i = Inr i" if "i \<notin> set (pair_letters ?ps)"
  proof -
    from fc i that have "?r ! nat i = ?U ! nat i" by blast
    with i show ?thesis by (simp add: get ALPHABET_UNIVERSE_nth)
  qed
  have invol: "\<exists>v. Plugboard_get ?pb i = Inr v \<and> 0 \<le> v \<and> v < A \<and> Plugboard_get ?pb v = Inr i"
  proof (cases "i \<in> set (pair_letters ?ps)")
    case True
    then obtain p where p: "p \<in> set ?ps" and ip: "i = fst p \<or> i = snd p"
      by (auto simp: in_pair_letters)
    obtain a b where pab: "p = (a, b)" by (cases p)
    from pairs [of a b] p pab have f: "0 \<le> a" "a < A" "0 \<le> b" "b < A"
      "Plugboard_get ?pb a = Inr b" "Plugboard_get ?pb b = Inr a"
      by simp_all
    from ip pab have "i = a \<or> i = b" by simp
    then show ?thesis
    proof
      assume "i = a"
      with f show ?thesis by blast
    next
      assume "i = b"
      with f show ?thesis by blast
    qed
  next
    case False
    from unpaired [OF False] i show ?thesis by blast
  qed
  have cnt: "1 \<le> length ?ps" "length ?ps \<le> 10"
    using lps np by simp_all
  have allp: "\<forall>(a, b) \<in> set ?ps. a \<noteq> b \<and> 0 \<le> a \<and> a < A \<and> 0 \<le> b \<and> b < A
               \<and> Plugboard_get ?pb a = Inr b \<and> Plugboard_get ?pb b = Inr a"
    using pairs by blast
  have "Plugboard_init A numPairs shs = Inr ?pb
      \<and> 1 \<le> length ?ps \<and> length ?ps \<le> 10
      \<and> (\<forall>(a, b) \<in> set ?ps.
            a \<noteq> b \<and> 0 \<le> a \<and> a < A \<and> 0 \<le> b \<and> b < A
            \<and> Plugboard_get ?pb a = Inr b \<and> Plugboard_get ?pb b = Inr a)
      \<and> distinct (pair_letters ?ps)
      \<and> (\<exists>v. Plugboard_get ?pb i = Inr v \<and> 0 \<le> v \<and> v < A \<and> Plugboard_get ?pb v = Inr i)
      \<and> (i \<notin> set (pair_letters ?ps) \<longrightarrow> Plugboard_get ?pb i = Inr i)"
    using init cnt allp dist invol unpaired by (intro conjI impI)
  then show ?thesis ..
qed

theorem C9_plugboard_involution_from_pairs_witness:
  "getRandomPlugboardString_ok 26 2 example_shs \<and> (26::int) \<le> 26 \<and> (2::int) * 2 \<le> 26
   \<and> (0::int) \<le> 3 \<and> (3::int) < 26
   \<and> Plugboard_init 26 2 example_shs
       = Inr \<lparr>plug_mapping = [25, 1, 2, 7, 4, 5, 6, 3] @ [8..24] @ [0], plug_str = ''dh za''\<rparr>
   \<and> popped_pairs example_shs = [(3, 7), (25, 0)]
   \<and> Plugboard_get \<lparr>plug_mapping = [25, 1, 2, 7, 4, 5, 6, 3] @ [8..24] @ [0], plug_str = ''dh za''\<rparr> 3 = Inr 7"
proof -
  have ok: "getRandomPlugboardString_ok 26 2 example_shs"
    by code_simp
  have init: "Plugboard_init 26 2 example_shs
       = Inr \<lparr>plug_mapping = [25, 1, 2, 7, 4, 5, 6, 3] @ [8..24] @ [0], plug_str = ''dh za''\<rparr>"
    by code_simp
  have ps: "popped_pairs example_shs = [(3, 7), (25, 0)]"
    by code_simp
  have g: "Plugboard_get \<lparr>plug_mapping = [25, 1, 2, 7, 4, 5, 6, 3] @ [8..24] @ [0], plug_str = ''dh za''\<rparr> 3 = Inr 7"
    by code_simp
  from C9_plugboard_involution_from_pairs [OF ok, of 3] ok init ps g show ?thesis
    by simp
qed

section \<open>Save and load\<close>

text \<open>
  C8: \<^verbatim>\<open>saveCfg\<close> leaves in the parser and writes to the file the Reflector section,
  one section per rotor with its ring offset, notch and disc, and the Plugboard section,
  and changes nothing else of the engine. \<^verbatim>\<open>loadCfg\<close> of that file on an engine with
  as many rotors returns normally, with the reflector and every rotor equal to the saved
  ones and the plugboard, like the stepping counters, as they were in memory. \<^verbatim>\<open>loadCfg\<close>
  of a path with no file changes nothing. The readers \<^verbatim>\<open>int\<close> and \<^verbatim>\<open>json.loads\<close> are
  assumed to read back what \<^verbatim>\<open>str\<close> and \<^verbatim>\<open>json.dumps\<close> wrote.
\<close>

theorem C8_save_load_contract:
  assumes int_str: "\<And>n. py_int (py_str n) = Inr n"
    and loads_dumps: "\<And>xs. json_loads (json_dumps xs) = Inr xs"
    and len: "length (rotors (rotor_asm e2)) = length (rotors (rotor_asm e))"
  shows "Enigma_saveCfg path fs e = (e\<lparr>config := saved_cfg e\<rparr>, fs(path \<mapsto> saved_cfg e))
       \<and> cfg_get (saved_cfg e) ''Reflector'' ''config'' = Inr (json_dumps (reflector (rotor_asm e)))
       \<and> (\<forall>j < length (rotors (rotor_asm e)).
             rotor_saved (saved_cfg e) (rotorSectionName j) (rotors (rotor_asm e) ! j))
       \<and> cfg_get (saved_cfg e) ''Plugboard'' ''settings'' = Inr (plug_str (plugboard e))
       \<and> Enigma_loadCfg py_int json_loads path (fs(path \<mapsto> saved_cfg e)) e2
           = (Inr (),
              e2\<lparr>config := cfg_read (config e2) (saved_cfg e),
                 rotor_asm := (rotor_asm e2)\<lparr>reflector := reflector (rotor_asm e),
                                             rotors := rotors (rotor_asm e)\<rparr>\<rparr>)
       \<and> (fs0 path0 = None \<longrightarrow> Enigma_loadCfg py_int json_loads path0 fs0 e0 = (Inr (), e0))"
proof -
  let ?c' = "cfg_read (config e2) (saved_cfg e)"
  have f2: "\<forall>j < length (rotors (rotor_asm e)).
              rotor_saved (saved_cfg e) (rotorSectionName j) (rotors (rotor_asm e) ! j)"
    using saved_cfg_rotor by blast
  have r1: "cfg_get ?c' ''Reflector'' ''config'' = Inr (json_dumps (reflector (rotor_asm e)))"
    using saved_cfg_reflector by (rule cfg_get_read)
  have r2: "\<forall>j < length (rotors (rotor_asm e)).
              rotor_saved ?c' (rotorSectionName j) (rotors (rotor_asm e) ! j)"
    using saved_cfg_rotor rotor_saved_read by blast
  have la: "RotorAssembly_loadCfg py_int json_loads ?c' (rotor_asm e2)
            = (Inr (), (rotor_asm e2)\<lparr>reflector := reflector (rotor_asm e),
                                       rotors := rotors (rotor_asm e)\<rparr>)"
    using int_str loads_dumps r1 len r2 by (rule RotorAssembly_loadCfg_saved)
  have present: "(fs(path \<mapsto> saved_cfg e)) path = Some (saved_cfg e)"
    by simp
  have ld: "Enigma_loadCfg py_int json_loads path (fs(path \<mapsto> saved_cfg e)) e2
           = (Inr (),
              e2\<lparr>config := ?c',
                 rotor_asm := (rotor_asm e2)\<lparr>reflector := reflector (rotor_asm e),
                                             rotors := rotors (rotor_asm e)\<rparr>\<rparr>)"
    using present la by (rule Enigma_loadCfg_present)
  have absent: "fs0 path0 = None \<longrightarrow> Enigma_loadCfg py_int json_loads path0 fs0 e0 = (Inr (), e0)"
    using Enigma_loadCfg_absent by blast
  from Enigma_saveCfg_saved saved_cfg_reflector f2 saved_cfg_plugboard ld absent
  show ?thesis by (intro conjI)
qed

theorem C8_save_load_contract_witness:
  "(\<forall>n. read_decimal (py_str n) = Inr n)
   \<and> (\<forall>xs. read_int_array (json_dumps xs) = Inr xs)
   \<and> length (rotors (rotor_asm other_Enigma)) = length (rotors (rotor_asm example_Enigma))
   \<and> Enigma_loadCfg read_decimal read_int_array ''enigma.cfg''
         ((\<lambda>_. None)(''enigma.cfg'' \<mapsto> saved_cfg example_Enigma)) other_Enigma
       = (Inr (),
          other_Enigma\<lparr>config := cfg_read (config other_Enigma) (saved_cfg example_Enigma),
             rotor_asm := (rotor_asm other_Enigma)\<lparr>reflector := reflector (rotor_asm example_Enigma),
                                                   rotors := rotors (rotor_asm example_Enigma)\<rparr>\<rparr>)
   \<and> plug_str (plugboard other_Enigma) = ''dh za''
   \<and> cfg_get (saved_cfg example_Enigma) ''Plugboard'' ''settings'' = Inr ''ab''
   \<and> rotorSectionName 0 = ''Rotor_1''
   \<and> Enigma_loadCfg read_decimal read_int_array ''missing.cfg'' (\<lambda>_. None) other_Enigma
       = (Inr (), other_Enigma)"
proof -
  have rd: "\<forall>n. read_decimal (py_str n) = Inr n"
    using read_decimal_py_str by blast
  have ra: "\<forall>xs. read_int_array (json_dumps xs) = Inr xs"
    using read_int_array_json_dumps by blast
  have len: "length (rotors (rotor_asm other_Enigma)) = length (rotors (rotor_asm example_Enigma))"
    by code_simp
  note t = C8_save_load_contract [of read_decimal read_int_array other_Enigma example_Enigma
      "''enigma.cfg''" "\<lambda>_. None" "\<lambda>_. None" "''missing.cfg''" other_Enigma,
      OF read_decimal_py_str read_int_array_json_dumps len]
  note ld = t [THEN conjunct2, THEN conjunct2, THEN conjunct2, THEN conjunct2, THEN conjunct1]
  note ab = t [THEN conjunct2, THEN conjunct2, THEN conjunct2, THEN conjunct2, THEN conjunct2]
  have miss: "Enigma_loadCfg read_decimal read_int_array ''missing.cfg'' (\<lambda>_. None) other_Enigma
       = (Inr (), other_Enigma)"
    using ab by simp
  have c1: "cfg_get (saved_cfg example_Enigma) ''Plugboard'' ''settings'' = Inr ''ab''"
    by (simp add: saved_cfg_plugboard example_Enigma_def)
  have c2: "plug_str (plugboard other_Enigma) = ''dh za''"
    by (simp add: other_Enigma_def)
  have c3: "rotorSectionName 0 = ''Rotor_1''"
    by code_simp
  from rd ra len ld c2 c1 c3 miss show ?thesis
    by (intro conjI)
qed

end
